theory Spec2Isabelle
  imports Complex_Main "HOL-Library.Log_Nat"
begin

section \<open>Python numbers as zulu/delta.py uses them\<close>

text \<open>
  A Python \<open>int\<close> is an \<^typ>\<open>int\<close>. A finite Python \<open>float\<close> (an IEEE-754 binary64
  value) is modelled by the rational number it denotes; an operation that produces a float
  rounds its exact result to the nearest value with a 53-bit significand, ties to even.
  Every float that arises below has a magnitude between \<open>10\<^sup>-\<^sup>1\<^sup>6\<close> and \<open>10\<^sup>1\<^sup>4\<close> (or is zero),
  so neither overflow nor subnormal numbers occur and the exponent range is left unbounded.
  The numerics are those of CPython 3, the branch of the module where \<open>PY2\<close> is false;
  under Python 2 the operator \<open>/\<close> on two ints is floor division, which gives \<open>__iter__\<close>
  the same quotients.
\<close>

datatype error = OverflowError | AttributeError | TypeError | ParseError | ValueError

definition round_half_even :: "rat \<Rightarrow> int" where
  "round_half_even q =
     (let f = \<lfloor>q\<rfloor>; r = q - of_int f
      in if r < 1 / 2 then f else if 1 / 2 < r then f + 1 else if even f then f else f + 1)"

text \<open>\<open>ilog2 q\<close> is the binary exponent of a positive \<open>q\<close>: \<open>2\<^sup>k \<le> q < 2\<^sup>k\<^sup>+\<^sup>1\<close>.\<close>

definition ilog2 :: "rat \<Rightarrow> int" where
  "ilog2 q = (if 1 \<le> q then bitlen \<lfloor>q\<rfloor> - 1 else - bitlen (\<lceil>1 / q\<rceil> - 1))"

text \<open>Rounding an exact result to the nearest double.\<close>

definition rnd :: "rat \<Rightarrow> rat" where
  "rnd q =
     (if q = 0 then 0
      else let e = ilog2 (abs q) - 52
           in sgn q * of_int (round_half_even (abs q / 2 powi e)) * 2 powi e)"

text \<open>\<open>a / b\<close> on two ints (Python 3 true division, correctly rounded).\<close>

definition int_truediv :: "int \<Rightarrow> int \<Rightarrow> rat" where
  "int_truediv a b = rnd (of_int a / of_int b)"

text \<open>\<open>int(x)\<close> on a float: truncation towards zero.\<close>

definition py_int :: "rat \<Rightarrow> int" where
  "py_int x = (if 0 \<le> x then \<lfloor>x\<rfloor> else \<lceil>x\<rceil>)"

section \<open>datetime.timedelta, the class Delta extends\<close>

text \<open>
  A timedelta holds normalised \<open>days\<close>, \<open>seconds\<close> and \<open>microseconds\<close>:
  \<open>0 \<le> seconds < 86400\<close>, \<open>0 \<le> microseconds < 1000000\<close> and
  \<open>-999999999 \<le> days \<le> 999999999\<close>.
\<close>

record timedelta =
  days :: int
  seconds :: int
  microseconds :: int

definition valid_timedelta :: "timedelta \<Rightarrow> bool" where
  "valid_timedelta d \<longleftrightarrow>
     - 999999999 \<le> days d \<and> days d \<le> 999999999 \<and>
     0 \<le> seconds d \<and> seconds d < 86400 \<and>
     0 \<le> microseconds d \<and> microseconds d < 1000000"

definition to_microseconds :: "timedelta \<Rightarrow> int" where
  "to_microseconds d = (days d * 86400 + seconds d) * 1000000 + microseconds d"

text \<open>\<open>total_seconds()\<close>: the microsecond count divided by \<open>10\<^sup>6\<close>, as a float.\<close>

definition total_seconds :: "timedelta \<Rightarrow> rat" where
  "total_seconds d = int_truediv (to_microseconds d) 1000000"

text \<open>Normalising a microsecond count; the day range is checked last.\<close>

definition microseconds_to_delta :: "int \<Rightarrow> error + timedelta" where
  "microseconds_to_delta us =
     (let s = us div 1000000; d = s div 86400
      in if d < - 999999999 \<or> 999999999 < d then Inl OverflowError
         else Inr \<lparr>days = d, seconds = s mod 86400, microseconds = us mod 1000000\<rparr>)"

text \<open>
  The constructor called with a float \<open>seconds\<close> keyword and nothing else: the integral
  part of \<open>x\<close> is converted exactly, the fractional part is multiplied by \<open>10\<^sup>6\<close> in float
  arithmetic and rounded to a whole number of microseconds, ties to even.
\<close>

definition timedelta_seconds :: "rat \<Rightarrow> error + timedelta" where
  "timedelta_seconds x =
     (let intpart = py_int x; fracpart = x - of_int intpart
      in microseconds_to_delta
           (intpart * 1000000 +
            (if fracpart = 0 then 0 else round_half_even (rnd (1000000 * fracpart)))))"

section \<open>zulu.delta\<close>

text \<open>
  Values that the arithmetic methods take and return. \<open>PyTimedelta\<close> is an instance of the
  plain native class, \<open>PyDelta\<close> an instance of the subclass \<open>Delta\<close>; both satisfy
  \<open>isinstance(_, timedelta)\<close>.
\<close>

datatype pyobj =
    PyInt int
  | PyFloat rat
  | PyTimedelta timedelta
  | PyDelta timedelta
  | PyTuple "pyobj list"
  | PyNotImplemented

type_synonym pymethod = "pyobj list \<Rightarrow> error + pyobj"

text \<open>\<open>Delta.fromtimedelta\<close>: \<open>cls(seconds=delta.total_seconds())\<close>.\<close>

definition fromtimedelta :: "timedelta \<Rightarrow> error + timedelta" where
  "fromtimedelta delta = timedelta_seconds (total_seconds delta)"

text \<open>The item conversion of \<open>_asdelta\<close>'s tuple branch, and the branch itself.\<close>

fun convert_item :: "pyobj \<Rightarrow> error + pyobj" where
  "convert_item (PyTimedelta d) = map_sum id PyDelta (fromtimedelta d)"
| "convert_item (PyDelta d) = map_sum id PyDelta (fromtimedelta d)"
| "convert_item x = Inr x"

fun convert_items :: "pyobj list \<Rightarrow> error + pyobj list" where
  "convert_items [] = Inr []"
| "convert_items (x # xs) =
     (case convert_item x of
        Inl e \<Rightarrow> Inl e
      | Inr y \<Rightarrow> (case convert_items xs of Inl e \<Rightarrow> Inl e | Inr ys \<Rightarrow> Inr (y # ys)))"

text \<open>
  The decorator \<open>_asdelta\<close>: an exception of the wrapped method propagates, a timedelta
  result is converted, a tuple result is converted item by item, anything else is returned
  as it is.
\<close>

definition asdelta :: "pymethod \<Rightarrow> pymethod" where
  "asdelta func args =
     (case func args of
        Inl e \<Rightarrow> Inl e
      | Inr result \<Rightarrow>
          (case result of
             PyTimedelta d \<Rightarrow> map_sum id PyDelta (fromtimedelta d)
           | PyDelta d \<Rightarrow> map_sum id PyDelta (fromtimedelta d)
           | PyTuple items \<Rightarrow> map_sum id PyTuple (convert_items items)
           | _ \<Rightarrow> Inr result))"

text \<open>
  The assignments \<open>Delta.__add__ = _asdelta(Delta.__add__)\<close> and so on, executed in order
  at import. A class is its method table; \<open>Delta\<close> starts with the methods it inherits from
  timedelta, which are a parameter here. Reading an attribute the class lacks raises.
\<close>

type_synonym class_dict = "string \<Rightarrow> pymethod option"

definition patched :: "bool \<Rightarrow> string list" where
  "patched PY2 =
     [''__add__'', ''__radd__'', ''__sub__'', ''__mul__'', ''__rmul__'', ''__floordiv__'',
      ''__pos__'', ''__neg__'', ''__abs__''] @
     (if PY2 then [''__div__''] else [''__truediv__'', ''__mod__'', ''__divmod__''])"

fun patch_all :: "string list \<Rightarrow> class_dict \<Rightarrow> error + class_dict" where
  "patch_all [] cls = Inr cls"
| "patch_all (n # ns) cls =
     (case cls n of
        None \<Rightarrow> Inl AttributeError
      | Some f \<Rightarrow> patch_all ns (cls(n \<mapsto> asdelta f)))"

definition Delta_class :: "bool \<Rightarrow> class_dict \<Rightarrow> error + class_dict" where
  "Delta_class PY2 inherited = patch_all (patched PY2) inherited"

text \<open>
  Two of the methods \<open>Delta\<close> inherits, as CPython's datetime module implements them for
  timedelta and its subclasses. Unary plus returns a plain timedelta of the same value.
  \<open>__rsub__(self, other)\<close> is \<open>other - self\<close>, computed as \<open>other + (-self)\<close>: a plain
  timedelta when \<open>other\<close> is a timedelta, NotImplemented otherwise. A call with the wrong
  number of arguments or a receiver that is no timedelta raises TypeError.
\<close>

fun as_timedelta :: "pyobj \<Rightarrow> timedelta option" where
  "as_timedelta (PyTimedelta d) = Some d"
| "as_timedelta (PyDelta d) = Some d"
| "as_timedelta x = None"

definition timedelta_pos :: pymethod where
  "timedelta_pos args =
     (case args of
        [self] \<Rightarrow> (case as_timedelta self of
                     None \<Rightarrow> Inl TypeError
                   | Some d \<Rightarrow> Inr (PyTimedelta d))
      | _ \<Rightarrow> Inl TypeError)"

definition timedelta_rsub :: pymethod where
  "timedelta_rsub args =
     (case args of
        [self, other] \<Rightarrow>
          (case as_timedelta self of
             None \<Rightarrow> Inl TypeError
           | Some d \<Rightarrow>
               (case as_timedelta other of
                  None \<Rightarrow> Inr PyNotImplemented
                | Some d' \<Rightarrow>
                    (case microseconds_to_delta (- to_microseconds d) of
                       Inl e \<Rightarrow> Inl e
                     | Inr minus_self \<Rightarrow>
                         map_sum id PyTimedelta
                           (microseconds_to_delta
                              (to_microseconds d' + to_microseconds minus_self)))))
      | _ \<Rightarrow> Inl TypeError)"

text \<open>
  \<open>Delta.__iter__\<close>. The quotients \<open>delta.days / 7\<close>, \<open>delta.seconds / 3600\<close> and
  \<open>delta.seconds / 60\<close> are float divisions truncated by \<open>int\<close>.
\<close>

definition Delta_iter :: "timedelta \<Rightarrow> error + (string \<times> int) list" where
  "Delta_iter self =
     (let total = total_seconds self
      in case (if total < 0 then map_sum id (\<lambda>d. (d, - 1)) (timedelta_seconds (abs total))
               else Inr (self, 1)) of
           Inl e \<Rightarrow> Inl e
         | Inr (delta, factor) \<Rightarrow>
             Inr [(''weeks'', py_int (int_truediv (days delta) 7) * factor),
                  (''days'', (days delta mod 7) * factor),
                  (''hours'', py_int (int_truediv (seconds delta) 3600) * factor),
                  (''minutes'', (py_int (int_truediv (seconds delta) 60) mod 60) * factor),
                  (''seconds'', (seconds delta mod 60) * factor),
                  (''microseconds'', microseconds delta * factor)])"

text \<open>
  The sum of the six components as the sentence about \<open>__iter__\<close> writes it,
  \<open>w*604800 + dy*86400 + h*3600 + mi*60 + s + us/1000000\<close>: read over the rationals, and
  as Python evaluates it (an int sum, a float quotient, a float addition).
\<close>

definition claimed_sum_exact :: "int \<Rightarrow> int \<Rightarrow> int \<Rightarrow> int \<Rightarrow> int \<Rightarrow> int \<Rightarrow> rat" where
  "claimed_sum_exact w dy h mi s us =
     of_int (w * 604800 + dy * 86400 + h * 3600 + mi * 60 + s) + of_int us / 1000000"

definition claimed_sum_float :: "int \<Rightarrow> int \<Rightarrow> int \<Rightarrow> int \<Rightarrow> int \<Rightarrow> int \<Rightarrow> rat" where
  "claimed_sum_float w dy h mi s us =
     rnd (of_int (w * 604800 + dy * 86400 + h * 3600 + mi * 60 + s) + int_truediv us 1000000)"

section \<open>The string parser's explicit offsets\<close>

text \<open>
  The module zulu/parser.py, which holds the string parser and its offset handling, is not
  among the sources; only the tests call it. The definitions of this section follow the
  specification's description of it, for input strings parsed with no \<open>formats\<close> and no
  \<open>default_tz\<close>.
\<close>

text \<open>Modelled from the spec: the sign of an explicit offset (parser.py is missing).\<close>

datatype sign = Plus | Minus

text \<open>
  Modelled from the spec: the Offset Resolver \<open>resolve_offset(sign, hh, mm)\<close> of the missing
  parser.py. It returns the signed minute count and fails with ParseError when the combined
  magnitude is 24:00 or more; the hours are not validated on their own.
\<close>

definition resolve_offset :: "sign \<Rightarrow> nat \<Rightarrow> nat \<Rightarrow> error + int" where
  "resolve_offset sg hh mm =
     (let total = hh * 60 + mm
      in if 24 * 60 \<le> total then Inl ParseError
         else Inr (case sg of Plus \<Rightarrow> int total | Minus \<Rightarrow> - int total))"

text \<open>Modelled from the spec: the date and time fields a capture group can stand for.\<close>

datatype field = Year | Month | Day | Hour | Minute | Second | Microsecond

text \<open>
  Modelled from the spec: a TranslatedFormat of the missing Pattern Translator, as the
  sequence of its regular-expression fragments: a literal character, a capture group of
  exactly \<open>n\<close> digits for a field, or the explicit numeric offset group.
\<close>

datatype frag = Lit char | Digits field nat | Offset

text \<open>Modelled from the spec: the character class of a numeric capture group.\<close>

definition is_digit :: "char \<Rightarrow> bool" where
  "is_digit c \<longleftrightarrow> c \<in> set ''0123456789''"

text \<open>Modelled from the spec: the value of a decimal digit of a captured text.\<close>

definition digit_val :: "char \<Rightarrow> nat" where
  "digit_val c = of_char c - 48"

text \<open>Modelled from the spec: the number a captured run of digits denotes.\<close>

definition number :: "string \<Rightarrow> nat" where
  "number s = foldl (\<lambda>n c. 10 * n + digit_val c) 0 s"

text \<open>
  Modelled from the spec: the explicit offset text \<open>\<plusminus>HHMM\<close> or \<open>\<plusminus>HH:MM\<close> at the head of a
  string, as the missing parser captures it: the sign, the hours, the minutes and the rest.
\<close>

definition offset_text :: "string \<Rightarrow> ((sign \<times> nat \<times> nat) \<times> string) option" where
  "offset_text s =
     (case s of
        sg # h1 # h2 # r \<Rightarrow>
          if (sg = CHR ''+'' \<or> sg = CHR ''-'') \<and> is_digit h1 \<and> is_digit h2
          then (case (case r of c # t \<Rightarrow> if c = CHR '':'' then t else r | [] \<Rightarrow> r) of
                  m1 # m2 # rest \<Rightarrow>
                    if is_digit m1 \<and> is_digit m2
                    then Some ((if sg = CHR ''+'' then Plus else Minus,
                                number [h1, h2], number [m1, m2]), rest)
                    else None
                | _ \<Rightarrow> None)
          else None
      | _ \<Rightarrow> None)"

type_synonym captures = "(field \<times> nat) list \<times> (sign \<times> nat \<times> nat) option"

text \<open>
  Modelled from the spec: matching the fragments of a candidate against an input of the
  missing String Parser. The match is anchored at both ends: when the fragments are used up
  the input must be used up too.
\<close>

fun match_frags :: "frag list \<Rightarrow> string \<Rightarrow> captures \<Rightarrow> captures option" where
  "match_frags [] s cap = (if s = [] then Some cap else None)"
| "match_frags (Lit c # fs) s cap =
     (case s of [] \<Rightarrow> None | x # r \<Rightarrow> if x = c then match_frags fs r cap else None)"
| "match_frags (Digits f n # fs) s cap =
     (if n \<le> length s \<and> list_all is_digit (take n s)
      then match_frags fs (drop n s) (fst cap @ [(f, number (take n s))], snd cap)
      else None)"
| "match_frags (Offset # fs) s cap =
     (case offset_text s of
        None \<Rightarrow> None
      | Some (off, r) \<Rightarrow> match_frags fs r (fst cap, Some off))"

text \<open>Modelled from the spec: a full match of a candidate, starting with nothing captured.\<close>

definition full_match :: "frag list \<Rightarrow> string \<Rightarrow> captures option" where
  "full_match fmt s = match_frags fmt s ([], None)"

text \<open>
  Modelled from the spec: the default candidates of the missing String Parser without an
  offset, in their fixed order: year only, year and month, full date, and full date with
  time (\<open>T\<close> or space separator) to minute and to second precision. The specification
  calls this set a minimum and counts the ISO form \<open>2000-01-01T12:30:45.000015+00:00\<close>
  among the default-format strings, so the time is also accepted with a fraction of exactly
  six digits after a point.
\<close>

definition date_time_formats :: "frag list list" where
  "date_time_formats =
     (let y = [Digits Year 4];
          ym = y @ [Lit CHR ''-'', Digits Month 2];
          ymd = ym @ [Lit CHR ''-'', Digits Day 2];
          hm = [Digits Hour 2, Lit CHR '':'', Digits Minute 2];
          hms = hm @ [Lit CHR '':'', Digits Second 2];
          hmsf = hms @ [Lit CHR ''.'', Digits Microsecond 6]
      in [y, ym, ymd,
          ymd @ [Lit CHR ''T''] @ hm, ymd @ [Lit CHR '' ''] @ hm,
          ymd @ [Lit CHR ''T''] @ hms, ymd @ [Lit CHR '' ''] @ hms,
          ymd @ [Lit CHR ''T''] @ hmsf, ymd @ [Lit CHR '' ''] @ hmsf])"

text \<open>
  Modelled from the spec: all default candidates: those above, then the same set with an
  explicit numeric UTC offset suffix.
\<close>

definition default_formats :: "frag list list" where
  "default_formats = date_time_formats @ map (\<lambda>fmt. fmt @ [Offset]) date_time_formats"

text \<open>
  Modelled from the spec: the fields of an Instant, the external type the parser produces,
  with microsecond precision.
\<close>

record datetime =
  year :: int
  month :: int
  day :: int
  hour :: int
  minute :: int
  second :: int
  microsecond :: int

text \<open>Modelled from the spec: the leap years of the external calendar.\<close>

definition is_leap :: "int \<Rightarrow> bool" where
  "is_leap y \<longleftrightarrow> y mod 4 = 0 \<and> (y mod 100 \<noteq> 0 \<or> y mod 400 = 0)"

text \<open>Modelled from the spec: the month lengths of the external calendar.\<close>

definition days_in_month :: "int \<Rightarrow> int \<Rightarrow> int" where
  "days_in_month y m =
     (if m = 2 then (if is_leap y then 29 else 28)
      else if m = 4 \<or> m = 6 \<or> m = 9 \<or> m = 11 then 30 else 31)"

text \<open>Modelled from the spec: a captured field, or its default when the candidate has none.\<close>

definition field_value :: "(field \<times> nat) list \<Rightarrow> field \<Rightarrow> int \<Rightarrow> int" where
  "field_value caps f dflt = (case map_of caps f of None \<Rightarrow> dflt | Some n \<Rightarrow> int n)"

text \<open>
  Modelled from the spec: the external \<open>from_fields\<close>, building the naive wall-clock value
  from the captured fields; a field out of its calendar range makes the candidate fail.
\<close>

definition from_fields :: "(field \<times> nat) list \<Rightarrow> datetime option" where
  "from_fields caps =
     (let dt = \<lparr>year = field_value caps Year 1900, month = field_value caps Month 1,
                day = field_value caps Day 1, hour = field_value caps Hour 0,
                minute = field_value caps Minute 0, second = field_value caps Second 0,
                microsecond = field_value caps Microsecond 0\<rparr>
      in if 1 \<le> year dt \<and> 1 \<le> month dt \<and> month dt \<le> 12 \<and>
            1 \<le> day dt \<and> day dt \<le> days_in_month (year dt) (month dt) \<and>
            hour dt < 24 \<and> minute dt < 60 \<and> second dt < 60
         then Some dt else None)"

text \<open>
  Modelled from the spec: the external calendar arithmetic, as the day number of a civil
  date in the proleptic Gregorian calendar (day 0 is 1970-01-01).
\<close>

definition days_from_civil :: "int \<Rightarrow> int \<Rightarrow> int \<Rightarrow> int" where
  "days_from_civil y m d =
     (let y' = (if m \<le> 2 then y - 1 else y);
          era = y' div 400;
          yoe = y' - era * 400;
          doy = (153 * (if 2 < m then m - 3 else m + 9) + 2) div 5 + d - 1;
          doe = yoe * 365 + yoe div 4 - yoe div 100 + doy
      in era * 146097 + doe - 719468)"

text \<open>Modelled from the spec: the external calendar arithmetic, back from a day number.\<close>

definition civil_from_days :: "int \<Rightarrow> int \<times> int \<times> int" where
  "civil_from_days z =
     (let z' = z + 719468;
          era = z' div 146097;
          doe = z' - era * 146097;
          yoe = (doe - doe div 1460 + doe div 36524 - doe div 146096) div 365;
          doy = doe - (365 * yoe + yoe div 4 - yoe div 100);
          mp = (5 * doy + 2) div 153;
          d = doy - (153 * mp + 2) div 5 + 1;
          m = (if mp < 10 then mp + 3 else mp - 9)
      in (if m \<le> 2 then yoe + era * 400 + 1 else yoe + era * 400, m, d))"

text \<open>
  Modelled from the spec: the shift of the missing parser's offset handling: the signed
  minute count is subtracted from the naive wall-clock value (UTC = local - offset).
\<close>

definition minus_minutes :: "datetime \<Rightarrow> int \<Rightarrow> datetime" where
  "minus_minutes dt m =
     (let total = (days_from_civil (year dt) (month dt) (day dt) * 24 + hour dt) * 60
                  + minute dt - m;
          (y, mo, d) = civil_from_days (total div 1440)
      in \<lparr>year = y, month = mo, day = d, hour = total mod 1440 div 60,
          minute = total mod 60, second = second dt, microsecond = microsecond dt\<rparr>)"

text \<open>
  Modelled from the spec: the signed minute count that an explicit offset of \<open>hh\<close> hours
  and \<open>mm\<close> minutes stands for, as the Offset Resolver returns it for an accepted offset.
\<close>

definition signed_minutes :: "sign \<Rightarrow> nat \<Rightarrow> nat \<Rightarrow> int" where
  "signed_minutes sg hh mm =
     (case sg of Plus \<Rightarrow> int (hh * 60 + mm) | Minus \<Rightarrow> - int (hh * 60 + mm))"

text \<open>
  Modelled from the spec: one attempt of the missing String Parser: the candidate must
  match the whole input and its fields must form a wall-clock value; a captured offset goes
  through the Offset Resolver and is subtracted; with no offset and no \<open>default_tz\<close> the
  value is taken as UTC.
\<close>

definition attempt :: "frag list \<Rightarrow> string \<Rightarrow> error + datetime" where
  "attempt fmt s =
     (case full_match fmt s of
        None \<Rightarrow> Inl ParseError
      | Some (caps, off) \<Rightarrow>
          (case from_fields caps of
             None \<Rightarrow> Inl ParseError
           | Some naive \<Rightarrow>
               (case off of
                  None \<Rightarrow> Inr naive
                | Some (sg, hh, mm) \<Rightarrow>
                    (case resolve_offset sg hh mm of
                       Inl e \<Rightarrow> Inl e
                     | Inr m \<Rightarrow> Inr (minus_minutes naive m)))))"

text \<open>
  Modelled from the spec: the candidates are attempted in order, a failed attempt is
  absorbed, the first success wins, and ParseError is raised when all have failed.
\<close>

fun parse_formats :: "frag list list \<Rightarrow> string \<Rightarrow> error + datetime" where
  "parse_formats [] s = Inl ParseError"
| "parse_formats (fmt # fmts) s =
     (case attempt fmt s of Inr dt \<Rightarrow> Inr dt | Inl e \<Rightarrow> parse_formats fmts s)"

text \<open>Modelled from the spec: \<open>parse\<close> of the missing parser.py on a string, with no \<open>formats\<close>.\<close>

definition parse :: "string \<Rightarrow> error + datetime" where
  "parse s = parse_formats default_formats s"

text \<open>
  The shape of a string forgets which digit stands at each digit position and keeps every
  other character. \<open>shapes fmt\<close> lists the shapes of the strings a candidate can match; two
  candidates whose shapes are disjoint never match the same input. These three definitions
  serve the proofs about the candidates above and model nothing further of the parser.
\<close>

definition shape :: "char \<Rightarrow> char option" where
  "shape c = (if is_digit c then None else Some c)"

definition offset_shapes :: "char option list list" where
  "offset_shapes =
     [[Some CHR ''+'', None, None, None, None], [Some CHR ''-'', None, None, None, None],
      [Some CHR ''+'', None, None, Some CHR '':'', None, None],
      [Some CHR ''-'', None, None, Some CHR '':'', None, None]]"

fun shapes :: "frag list \<Rightarrow> char option list list" where
  "shapes [] = [[]]"
| "shapes (Lit c # fs) = map ((#) (shape c)) (shapes fs)"
| "shapes (Digits f n # fs) = map ((@) (replicate n None)) (shapes fs)"
| "shapes (Offset # fs) = concat (map (\<lambda>pre. map ((@) pre) (shapes fs)) offset_shapes)"

fun pairwise_disjoint :: "'a list list \<Rightarrow> bool" where
  "pairwise_disjoint [] = True"
| "pairwise_disjoint (x # xs) =
     (list_all (\<lambda>y. list_all (\<lambda>a. a \<notin> set y) x) xs \<and> pairwise_disjoint xs)"

section \<open>The arithmetic operators and the Delta type\<close>

lemma patch_all_other:
  "patch_all ns cls = Inr cls' \<Longrightarrow> n \<notin> set ns \<Longrightarrow> cls' n = cls n"
proof (induction ns arbitrary: cls)
  case Nil
  then show ?case by simp
next
  case (Cons a ns)
  from Cons.prems(1) obtain f where f: "cls a = Some f"
    and rest: "patch_all ns (cls(a \<mapsto> asdelta f)) = Inr cls'"
    by (auto split: option.splits)
  from Cons.prems(2) have "n \<noteq> a" "n \<notin> set ns" by auto
  with Cons.IH [OF rest] show ?case by simp
qed

lemma patch_all_lookup:
  "patch_all ns cls = Inr cls' \<Longrightarrow> distinct ns \<Longrightarrow> n \<in> set ns \<Longrightarrow>
   cls' n = map_option asdelta (cls n)"
proof (induction ns arbitrary: cls)
  case Nil
  then show ?case by simp
next
  case (Cons a ns)
  from Cons.prems(1) obtain f where f: "cls a = Some f"
    and rest: "patch_all ns (cls(a \<mapsto> asdelta f)) = Inr cls'"
    by (auto split: option.splits)
  show ?case
  proof (cases "n = a")
    case True
    with Cons.prems(2) have "n \<notin> set ns" by simp
    with patch_all_other [OF rest] True f show ?thesis by simp
  next
    case False
    with Cons.prems have "distinct ns" "n \<in> set ns" by simp_all
    with Cons.IH [OF rest] False show ?thesis by simp
  qed
qed

lemma reflected_not_patched:
  "n \<in> {''__rsub__'', ''__rmod__'', ''__rdivmod__''} \<Longrightarrow> n \<notin> set (patched PY2)"
  by (auto simp: patched_def)

lemma pos_patched: "''__pos__'' \<in> set (patched PY2)" "distinct (patched PY2)"
  by (simp_all add: patched_def)

lemma rsub_plain:
  "timedelta_rsub [PyDelta \<lparr>days = 1, seconds = 0, microseconds = 0\<rparr>,
                   PyTimedelta \<lparr>days = 2, seconds = 0, microseconds = 0\<rparr>] =
     Inr (PyTimedelta \<lparr>days = 1, seconds = 0, microseconds = 0\<rparr>)"
  by code_simp

lemma pos_max_overflows:
  "asdelta timedelta_pos [PyDelta \<lparr>days = 999999999, seconds = 86399, microseconds = 999999\<rparr>] =
     Inl OverflowError"
  by code_simp

lemma pos_changes_value:
  "asdelta timedelta_pos [PyDelta \<lparr>days = 200000, seconds = 0, microseconds = 1\<rparr>] =
     Inr (PyDelta \<lparr>days = 200000, seconds = 0, microseconds = 0\<rparr>)"
  by code_simp

text \<open>
  C8. The class as the module leaves it is not closed under the arithmetic operators.
  The assignments wrap \<open>__radd__\<close> and \<open>__rmul__\<close> but not their siblings \<open>__rsub__\<close>,
  \<open>__rmod__\<close> and \<open>__rdivmod__\<close>, which stay timedelta's own: \<open>timedelta(days=2) -
  Delta(days=1)\<close>, which Python answers with \<open>Delta.__rsub__\<close>, is a plain timedelta of one
  day. The wrapped methods convert through float seconds: \<open>+Delta.max\<close> raises
  OverflowError, and \<open>+Delta(days=200000, microseconds=1)\<close> is \<open>Delta(days=200000)\<close>.
\<close>

theorem Delta_arithmetic_not_closed:
  assumes "Delta_class PY2 inherited = Inr cls"
    and "inherited ''__rsub__'' = Some timedelta_rsub"
    and "inherited ''__pos__'' = Some timedelta_pos"
  shows "cls ''__rmod__'' = inherited ''__rmod__''
     \<and> cls ''__rdivmod__'' = inherited ''__rdivmod__''
     \<and> (\<exists>rsub pos.
          cls ''__rsub__'' = Some rsub
        \<and> rsub [PyDelta \<lparr>days = 1, seconds = 0, microseconds = 0\<rparr>,
                 PyTimedelta \<lparr>days = 2, seconds = 0, microseconds = 0\<rparr>] =
            Inr (PyTimedelta \<lparr>days = 1, seconds = 0, microseconds = 0\<rparr>)
        \<and> cls ''__pos__'' = Some pos
        \<and> pos [PyDelta \<lparr>days = 999999999, seconds = 86399, microseconds = 999999\<rparr>] =
            Inl OverflowError
        \<and> pos [PyDelta \<lparr>days = 200000, seconds = 0, microseconds = 1\<rparr>] =
            Inr (PyDelta \<lparr>days = 200000, seconds = 0, microseconds = 0\<rparr>))"
proof -
  note p = assms(1) [unfolded Delta_class_def]
  have other: "cls n = inherited n" if "n \<in> {''__rsub__'', ''__rmod__'', ''__rdivmod__''}" for n
    using patch_all_other [OF p reflected_not_patched [OF that]] .
  have rsub: "cls ''__rsub__'' = Some timedelta_rsub"
    using other [of "''__rsub__''"] assms(2) by simp
  have pos: "cls ''__pos__'' = Some (asdelta timedelta_pos)"
    using patch_all_lookup [OF p pos_patched(2) pos_patched(1)] assms(3) by simp
  have rmod: "cls ''__rmod__'' = inherited ''__rmod__''" using other [of "''__rmod__''"] by simp
  have rdivmod: "cls ''__rdivmod__'' = inherited ''__rdivmod__''"
    using other [of "''__rdivmod__''"] by simp
  from rmod rdivmod rsub rsub_plain pos pos_max_overflows pos_changes_value
  show ?thesis by blast
qed

theorem Delta_arithmetic_not_closed_witness:
  "\<exists>cls.
     Delta_class False ((\<lambda>n. Some timedelta_pos)(''__rsub__'' \<mapsto> timedelta_rsub)) = Inr cls
     \<and> ((\<lambda>n. Some timedelta_pos)(''__rsub__'' \<mapsto> timedelta_rsub)) ''__rsub__'' = Some timedelta_rsub
     \<and> ((\<lambda>n. Some timedelta_pos)(''__rsub__'' \<mapsto> timedelta_rsub)) ''__pos__'' = Some timedelta_pos
     \<and> (\<exists>rsub pos.
          cls ''__rsub__'' = Some rsub
        \<and> rsub [PyDelta \<lparr>days = 1, seconds = 0, microseconds = 0\<rparr>,
                 PyTimedelta \<lparr>days = 2, seconds = 0, microseconds = 0\<rparr>] =
            Inr (PyTimedelta \<lparr>days = 1, seconds = 0, microseconds = 0\<rparr>)
        \<and> cls ''__pos__'' = Some pos
        \<and> pos [PyDelta \<lparr>days = 999999999, seconds = 86399, microseconds = 999999\<rparr>] =
            Inl OverflowError
        \<and> pos [PyDelta \<lparr>days = 200000, seconds = 0, microseconds = 1\<rparr>] =
            Inr (PyDelta \<lparr>days = 200000, seconds = 0, microseconds = 0\<rparr>))"
proof -
  let ?T = "(\<lambda>n. Some timedelta_pos)(''__rsub__'' \<mapsto> timedelta_rsub)"
  obtain cls where c: "Delta_class False ?T = Inr cls"
    by (simp add: Delta_class_def patched_def)
  have r: "?T ''__rsub__'' = Some timedelta_rsub" by simp
  have q: "?T ''__pos__'' = Some timedelta_pos" by simp
  from Delta_arithmetic_not_closed [OF c r q] c r q show ?thesis by blast
qed

section \<open>Facts about rounding to a double\<close>

lemma bitlen_pos: "0 < x \<Longrightarrow> 1 \<le> bitlen x"
  using bitlen_eq_zero_iff [of x] bitlen_nonneg [of x] by linarith

lemma ilog2_lower: assumes "0 < q" shows "2 powi (ilog2 q) \<le> q"
proof (cases "1 \<le> q")
  case True
  define f where "f = \<lfloor>q\<rfloor>"
  have fpos: "0 < f" using True by (simp add: f_def)
  have L: "1 \<le> bitlen f" using fpos by (rule bitlen_pos)
  have "(2::int) ^ nat (bitlen f - 1) \<le> f" using bitlen_bounds [OF fpos] by simp
  then have "(of_int ((2::int) ^ nat (bitlen f - 1)) :: rat) \<le> of_int f" by (simp only: of_int_le_iff)
  also have "\<dots> \<le> q" by (simp add: f_def)
  finally have "(2::rat) ^ nat (bitlen f - 1) \<le> q" by simp
  moreover have "ilog2 q = bitlen f - 1" using True by (simp add: ilog2_def f_def)
  ultimately show ?thesis using L by (simp add: power_int_nonneg_exp)
next
  case False
  define c where "c = \<lceil>1 / q\<rceil>"
  define L where "L = bitlen (c - 1)"
  have "1 < 1 / q" using False assms by simp
  then have c2: "2 \<le> c" unfolding c_def by (simp add: le_ceiling_iff)
  then have cpos: "0 < c - 1" by simp
  have Lpos: "1 \<le> L" unfolding L_def using cpos by (rule bitlen_pos)
  have "c - 1 < 2 ^ nat L" using bitlen_bounds [OF cpos] by (simp add: L_def)
  then have "c \<le> 2 ^ nat L" by simp
  then have "(of_int c :: rat) \<le> of_int (2 ^ nat L)" by (simp only: of_int_le_iff)
  then have "(of_int c :: rat) \<le> 2 ^ nat L" by simp
  moreover have "1 / q \<le> of_int c" by (simp add: c_def)
  ultimately have "1 / q \<le> 2 ^ nat L" by linarith
  then have "1 \<le> 2 ^ nat L * q" using assms by (simp add: field_simps)
  then have "1 / 2 ^ nat L \<le> q" by (simp add: field_simps)
  moreover have "ilog2 q = - L" using False by (simp add: ilog2_def c_def L_def)
  moreover have "(2::rat) powi (- L) = 1 / 2 ^ nat L"
    using Lpos by (simp add: power_int_minus_divide power_int_nonneg_exp)
  ultimately show ?thesis by simp
qed

lemma ilog2_upper: assumes "0 < q" shows "q < 2 powi (ilog2 q + 1)"
proof (cases "1 \<le> q")
  case True
  define f where "f = \<lfloor>q\<rfloor>"
  have fpos: "0 < f" using True by (simp add: f_def)
  have L: "1 \<le> bitlen f" using fpos by (rule bitlen_pos)
  have "f < 2 ^ nat (bitlen f)" using bitlen_bounds [OF fpos] by simp
  then have "f + 1 \<le> 2 ^ nat (bitlen f)" by simp
  then have "(of_int (f + 1) :: rat) \<le> of_int (2 ^ nat (bitlen f))" by (simp only: of_int_le_iff)
  then have "(of_int f + 1 :: rat) \<le> 2 ^ nat (bitlen f)" by simp
  moreover have "q < of_int f + 1" unfolding f_def by linarith
  ultimately have "q < 2 ^ nat (bitlen f)" by linarith
  moreover have "ilog2 q + 1 = bitlen f" using True by (simp add: ilog2_def f_def)
  ultimately show ?thesis using L by (simp add: power_int_nonneg_exp)
next
  case False
  define c where "c = \<lceil>1 / q\<rceil>"
  define L where "L = bitlen (c - 1)"
  have "1 < 1 / q" using False assms by simp
  then have c2: "2 \<le> c" unfolding c_def by (simp add: le_ceiling_iff)
  then have cpos: "0 < c - 1" by simp
  have Lpos: "1 \<le> L" unfolding L_def using cpos by (rule bitlen_pos)
  have "2 ^ nat (L - 1) \<le> c - 1" using bitlen_bounds [OF cpos] by (simp add: L_def)
  then have "(of_int (2 ^ nat (L - 1)) :: rat) \<le> of_int (c - 1)" by (simp only: of_int_le_iff)
  then have "(2 ^ nat (L - 1) :: rat) \<le> of_int c - 1" by simp
  moreover have "of_int c - 1 < 1 / q" unfolding c_def by linarith
  ultimately have "2 ^ nat (L - 1) < 1 / q" by linarith
  then have "2 ^ nat (L - 1) * q < 1" using assms by (simp add: field_simps)
  then have "q < 1 / 2 ^ nat (L - 1)" by (simp add: field_simps)
  moreover have "ilog2 q + 1 = - (L - 1)" using False by (simp add: ilog2_def c_def L_def)
  moreover have "(2::rat) powi (- (L - 1)) = 1 / 2 ^ nat (L - 1)"
    using Lpos by (simp only: power_int_minus_divide) (simp add: power_int_nonneg_exp)
  ultimately show ?thesis by simp
qed

lemma round_half_even_ge: "of_int N \<le> q \<Longrightarrow> N \<le> round_half_even q"
proof -
  assume "of_int N \<le> q"
  then have "N \<le> \<lfloor>q\<rfloor>" by (simp add: le_floor_iff)
  then show ?thesis by (simp add: round_half_even_def Let_def)
qed

lemma round_half_even_le: assumes "q \<le> of_int N" shows "round_half_even q \<le> N"
proof -
  have f: "\<lfloor>q\<rfloor> \<le> N" using assms by (simp add: floor_le_iff)
  show ?thesis
  proof (cases "q - of_int \<lfloor>q\<rfloor> < 1 / 2")
    case True
    then show ?thesis using f by (simp add: round_half_even_def Let_def)
  next
    case False
    have "\<lfloor>q\<rfloor> \<noteq> N"
    proof
      assume "\<lfloor>q\<rfloor> = N"
      then have "of_int N \<le> q" using of_int_floor_le [of q] by simp
      with assms have "q = of_int N" by simp
      then have "q - of_int \<lfloor>q\<rfloor> = 0" by simp
      with False show False by simp
    qed
    with f have "\<lfloor>q\<rfloor> + 1 \<le> N" by simp
    then show ?thesis using f by (simp add: round_half_even_def Let_def)
  qed
qed

lemma round_half_even_of_int [simp]: "round_half_even (of_int n) = n"
  by (simp add: round_half_even_def Let_def)

lemma rnd_pos_eq:
  "0 < q \<Longrightarrow>
   rnd q = of_int (round_half_even (q / 2 powi (ilog2 q - 52))) * 2 powi (ilog2 q - 52)"
  by (simp add: rnd_def Let_def)

lemma rnd_minus: "rnd (- q) = - rnd q"
  by (simp add: rnd_def Let_def)

lemma rnd_zero [simp]: "rnd 0 = 0"
  by (simp add: rnd_def)

lemma scaled_ge: assumes "0 < q" shows "2 ^ 52 \<le> q / 2 powi (ilog2 q - 52)"
proof -
  have p: "0 < (2::rat) powi (ilog2 q)" by simp
  have a: "q / 2 powi (ilog2 q - 52) = q / 2 powi (ilog2 q) * 2 ^ 52"
    by (simp add: power_int_diff)
  have "1 \<le> q / 2 powi (ilog2 q)"
    using ilog2_lower [OF assms] by (simp add: pos_le_divide_eq [OF p])
  then have "(1::rat) * 2 ^ 52 \<le> q / 2 powi (ilog2 q) * 2 ^ 52"
    by (rule mult_right_mono) simp
  then show ?thesis by (simp only: a mult_1_left)
qed

lemma rnd_le_repr:
  assumes "0 < q" and "q \<le> of_int M * 2 powi k" and "M < 2 ^ 53"
  shows "rnd q \<le> of_int M * 2 powi k"
proof -
  define e where "e = ilog2 q - 52"
  define t where "t = q / 2 powi e"
  have pe: "0 < (2::rat) powi e" by simp
  have pk: "0 < (2::rat) powi k" by simp
  have q_eq: "q = t * 2 powi e" by (simp add: t_def)
  have t52: "2 ^ 52 \<le> t" unfolding t_def e_def using assms(1) by (rule scaled_ge)
  have Mpos: "0 < M"
  proof (rule ccontr)
    assume "\<not> 0 < M"
    then have "(of_int M :: rat) \<le> 0" by simp
    then have "of_int M * (2::rat) powi k \<le> 0" using pk by (simp add: mult_le_0_iff)
    with assms(1,2) show False by simp
  qed
  have ek: "e \<le> k"
  proof (rule ccontr)
    assume "\<not> e \<le> k"
    then have "k \<le> e - 1" by simp
    then have "(2::rat) powi k \<le> 2 powi (e - 1)" by (intro power_int_increasing) simp_all
    moreover have "(of_int M :: rat) < 2 ^ 53"
    proof -
      from assms(3) have "(of_int M :: rat) < of_int (2 ^ 53)" by (simp only: of_int_less_iff)
      then show ?thesis by simp
    qed
    moreover have "(0::rat) < of_int M" using Mpos by simp
    ultimately have "of_int M * (2::rat) powi k < 2 ^ 53 * 2 powi (e - 1)"
      using pk by (intro mult_less_le_imp_less) simp_all
    also have "(2::rat) ^ 53 * 2 powi (e - 1) = 2 ^ 52 * 2 powi e"
      by (simp add: power_int_diff)
    also have "\<dots> \<le> t * 2 powi e" using t52 pe by simp
    finally show False using assms(2) q_eq by simp
  qed
  define N where "N = M * 2 ^ nat (k - e)"
  have "(2::rat) powi k = 2 powi (k - e) * 2 powi e" by (simp add: power_int_diff)
  also have "(2::rat) powi (k - e) = 2 ^ nat (k - e)" using ek by (simp add: power_int_nonneg_exp)
  finally have Nk: "of_int N * 2 powi e = of_int M * (2::rat) powi k" by (simp add: N_def)
  have "t * 2 powi e \<le> of_int N * 2 powi e" using assms(2) q_eq Nk by simp
  then have "t \<le> of_int N" using pe by simp
  then have "round_half_even t \<le> N" by (rule round_half_even_le)
  then have "(of_int (round_half_even t) :: rat) \<le> of_int N" by (simp only: of_int_le_iff)
  then have "of_int (round_half_even t) * 2 powi e \<le> of_int N * (2::rat) powi e"
    using pe by simp
  moreover have "rnd q = of_int (round_half_even t) * 2 powi e"
    using assms(1) by (simp add: rnd_pos_eq t_def e_def)
  ultimately show ?thesis using Nk by simp
qed

lemma rnd_ge_repr:
  assumes "0 < q" and "of_int M * 2 powi k \<le> q" and "0 < M" and "M < 2 ^ 53"
  shows "of_int M * 2 powi k \<le> rnd q"
proof -
  define e where "e = ilog2 q - 52"
  define t where "t = q / 2 powi e"
  have pe: "0 < (2::rat) powi e" by simp
  have pk: "0 < (2::rat) powi k" by simp
  have q_eq: "q = t * 2 powi e" by (simp add: t_def)
  have t52: "2 ^ 52 \<le> t" unfolding t_def e_def using assms(1) by (rule scaled_ge)
  have r: "rnd q = of_int (round_half_even t) * 2 powi e"
    using assms(1) by (simp add: rnd_pos_eq t_def e_def)
  show ?thesis
  proof (cases "e \<le> k")
    case True
    define N where "N = M * 2 ^ nat (k - e)"
    have "(2::rat) powi k = 2 powi (k - e) * 2 powi e" by (simp add: power_int_diff)
    also have "(2::rat) powi (k - e) = 2 ^ nat (k - e)"
      using True by (simp add: power_int_nonneg_exp)
    finally have Nk: "of_int N * 2 powi e = of_int M * (2::rat) powi k" by (simp add: N_def)
    have "of_int N * 2 powi e \<le> t * 2 powi e" using assms(2) q_eq Nk by simp
    then have "of_int N \<le> t" using pe by simp
    then have "N \<le> round_half_even t" by (rule round_half_even_ge)
    then have "(of_int N :: rat) \<le> of_int (round_half_even t)" by (simp only: of_int_le_iff)
    then have "of_int N * (2::rat) powi e \<le> of_int (round_half_even t) * 2 powi e"
      using pe by simp
    with r Nk show ?thesis by simp
  next
    case False
    then have "k \<le> e - 1" by simp
    then have "(2::rat) powi k \<le> 2 powi (e - 1)" by (intro power_int_increasing) simp_all
    moreover have "(of_int M :: rat) < 2 ^ 53"
    proof -
      from assms(4) have "(of_int M :: rat) < of_int (2 ^ 53)" by (simp only: of_int_less_iff)
      then show ?thesis by simp
    qed
    moreover have "(0::rat) < of_int M" using assms(3) by simp
    ultimately have "of_int M * (2::rat) powi k < 2 ^ 53 * 2 powi (e - 1)"
      using pk by (intro mult_less_le_imp_less) simp_all
    also have "(2::rat) ^ 53 * 2 powi (e - 1) = 2 ^ 52 * 2 powi e"
      by (simp add: power_int_diff)
    finally have lt: "of_int M * (2::rat) powi k < 2 ^ 52 * 2 powi e" .
    have "(of_int (2 ^ 52) :: rat) \<le> t" using t52 by simp
    then have "2 ^ 52 \<le> round_half_even t" by (rule round_half_even_ge)
    then have "(of_int (2 ^ 52) :: rat) \<le> of_int (round_half_even t)"
      by (simp only: of_int_le_iff)
    then have "(2::rat) ^ 52 * 2 powi e \<le> of_int (round_half_even t) * 2 powi e"
      using pe by simp
    with lt have "of_int M * (2::rat) powi k < of_int (round_half_even t) * 2 powi e"
      by (rule less_le_trans)
    then show ?thesis unfolding r by (rule less_imp_le)
  qed
qed

lemma rnd_pos: assumes "0 < q" shows "0 < rnd q"
proof -
  have "(of_int 1 :: rat) * 2 powi (ilog2 q) \<le> rnd q"
    using assms by (intro rnd_ge_repr) (simp_all add: ilog2_lower)
  then have "(2::rat) powi (ilog2 q) \<le> rnd q" by simp
  moreover have "0 < (2::rat) powi (ilog2 q)" by simp
  ultimately show ?thesis by (rule less_le_trans [rotated])
qed

lemma rnd_neg_iff: "rnd q < 0 \<longleftrightarrow> q < 0"
proof (cases "0 < q")
  case True
  with rnd_pos [OF True] show ?thesis by simp
next
  case False
  show ?thesis
  proof (cases "q = 0")
    case True
    then show ?thesis by simp
  next
    case False
    with \<open>\<not> 0 < q\<close> have neg: "0 < - q" by simp
    have "rnd q = - rnd (- q)" by (simp add: rnd_minus)
    with rnd_pos [OF neg] neg show ?thesis by simp
  qed
qed

lemma rnd_abs: "abs (rnd q) = rnd (abs q)"
proof (cases "q < 0")
  case True
  then have "rnd q < 0" by (simp add: rnd_neg_iff)
  with True show ?thesis by (simp add: rnd_minus)
next
  case False
  then have "\<not> rnd q < 0" by (simp add: rnd_neg_iff)
  with False show ?thesis by simp
qed

lemma py_int_truediv:
  assumes "0 \<le> a" and "0 < b" and "b \<le> 4096" and "a < 2 ^ 40"
  shows "py_int (int_truediv a b) = a div b"
proof (cases "a = 0")
  case True
  then show ?thesis by (simp add: int_truediv_def py_int_def)
next
  case False
  define k where "k = a div b"
  define r where "r = a mod b"
  define q :: rat where "q = of_int a / of_int b"
  have a_eq: "a = k * b + r" by (simp add: k_def r_def)
  have r0: "0 \<le> r" and rb: "r < b" using assms(2) by (simp_all add: r_def)
  have k0: "0 \<le> k" using assms(1,2) by (simp add: k_def pos_imp_zdiv_nonneg_iff)
  have kb: "k * b \<le> a" using r0 a_eq by simp
  have "k * 1 \<le> k * b" using k0 assms(2) by (intro mult_left_mono) simp_all
  with kb have ka: "k \<le> a" by simp
  have bpos: "(0::rat) < of_int b" using assms(2) by simp
  have qpos: "0 < q" using False assms(1,2) by (simp add: q_def)
  have lower: "of_int k \<le> rnd q"
  proof (cases "k = 0")
    case True
    with rnd_pos [OF qpos] show ?thesis by simp
  next
    case False
    with k0 have kpos: "0 < k" by simp
    have "(of_int (k * b) :: rat) \<le> of_int a" using kb by (simp only: of_int_le_iff)
    then have "of_int k * (2::rat) powi 0 \<le> q"
      using bpos by (simp add: q_def pos_le_divide_eq)
    moreover have "k < 2 ^ 53" using ka assms(4) by simp
    ultimately have "of_int k * (2::rat) powi 0 \<le> rnd q"
      using qpos kpos by (intro rnd_ge_repr)
    then show ?thesis by simp
  qed
  define M where "M = (k + 1) * 4096 - 1"
  have "4096 * r \<le> 4096 * b - b" using rb assms(3) by simp
  then have "a * 4096 \<le> M * b"
    unfolding M_def by (subst a_eq) (simp add: algebra_simps)
  then have "(of_int (a * 4096) :: rat) \<le> of_int (M * b)" by (simp only: of_int_le_iff)
  then have "of_int a * (4096::rat) \<le> of_int M * of_int b" by simp
  then have "q \<le> of_int M / 4096"
    using bpos by (simp add: q_def pos_divide_le_eq pos_le_divide_eq mult.commute)
  then have qM: "q \<le> of_int M * 2 powi (- 12)" by (simp add: power_int_minus_divide)
  have "M < 2 ^ 53" unfolding M_def using ka assms(4) by simp
  with qpos qM have "rnd q \<le> of_int M * 2 powi (- 12)" by (intro rnd_le_repr)
  moreover have "of_int M * (2::rat) powi (- 12) < of_int k + 1"
    by (simp add: M_def power_int_minus_divide field_simps)
  ultimately have upper: "rnd q < of_int k + 1" by simp
  have "\<lfloor>rnd q\<rfloor> = k" using lower upper by (intro floor_unique) simp_all
  moreover have "0 \<le> rnd q" using rnd_pos [OF qpos] by simp
  ultimately show ?thesis by (simp add: int_truediv_def py_int_def q_def k_def)
qed

lemma microseconds_to_delta_nonneg:
  assumes "0 \<le> us" and "us \<le> 86399999913600000000"
  shows "\<exists>delta. microseconds_to_delta us = Inr delta \<and> valid_timedelta delta \<and> 0 \<le> days delta"
proof -
  define s where "s = us div 1000000"
  define d where "d = s div 86400"
  have s0: "0 \<le> s" and s1: "s \<le> 86399999913600" using assms unfolding s_def by arith+
  have d0: "0 \<le> d" and d1: "d \<le> 999999999" using s0 s1 unfolding d_def by arith+
  have "microseconds_to_delta us =
      Inr \<lparr>days = d, seconds = s mod 86400, microseconds = us mod 1000000\<rparr>"
    using d0 d1 by (simp add: microseconds_to_delta_def Let_def s_def d_def)
  moreover have "valid_timedelta \<lparr>days = d, seconds = s mod 86400, microseconds = us mod 1000000\<rparr>"
    using d0 d1 by (simp add: valid_timedelta_def)
  ultimately show ?thesis using d0 by simp
qed

lemma timedelta_seconds_nonneg:
  assumes "0 \<le> x" and "x \<le> 86399999913600"
  shows "\<exists>delta. timedelta_seconds x = Inr delta \<and> valid_timedelta delta \<and> 0 \<le> days delta"
proof -
  define ip where "ip = \<lfloor>x\<rfloor>"
  define fp where "fp = x - of_int ip"
  define c where "c = (if fp = 0 then 0 else round_half_even (rnd (1000000 * fp)))"
  have ip0: "0 \<le> ip" using assms(1) by (simp add: ip_def)
  have fp0: "0 \<le> fp" and fp1: "fp < 1" unfolding fp_def ip_def by linarith+
  have ipx: "of_int ip \<le> x" by (simp add: ip_def)
  have c0: "0 \<le> c" and c1: "c \<le> 1000000"
  proof -
    show "0 \<le> c"
    proof (cases "fp = 0")
      case True
      then show ?thesis by (simp add: c_def)
    next
      case False
      with fp0 have "0 < 1000000 * fp" by simp
      then have "of_int 0 \<le> rnd (1000000 * fp)" using rnd_pos by (simp add: less_imp_le)
      then have "0 \<le> round_half_even (rnd (1000000 * fp))" by (rule round_half_even_ge)
      with False show ?thesis by (simp add: c_def)
    qed
    show "c \<le> 1000000"
    proof (cases "fp = 0")
      case True
      then show ?thesis by (simp add: c_def)
    next
      case False
      with fp0 have pos: "0 < 1000000 * fp" by simp
      have "1000000 * fp \<le> of_int 1000000 * 2 powi 0" using fp1 by simp
      with pos have "rnd (1000000 * fp) \<le> of_int 1000000 * 2 powi 0"
        by (intro rnd_le_repr) simp_all
      then have "rnd (1000000 * fp) \<le> of_int 1000000" by simp
      then have "round_half_even (rnd (1000000 * fp)) \<le> 1000000" by (rule round_half_even_le)
      with False show ?thesis by (simp add: c_def)
    qed
  qed
  have us1: "ip * 1000000 + c \<le> 86399999913600000000"
  proof (cases "fp = 0")
    case True
    then have "c = 0" by (simp add: c_def)
    moreover have "(of_int ip :: rat) \<le> of_int 86399999913600" using ipx assms(2) by simp
    then have "ip \<le> 86399999913600" by (simp only: of_int_le_iff)
    ultimately show ?thesis by simp
  next
    case False
    with fp0 have "0 < fp" by simp
    then have "of_int ip < x" by (simp add: fp_def)
    with assms(2) have "(of_int ip :: rat) < of_int 86399999913600" by simp
    then have "ip < 86399999913600" by (simp only: of_int_less_iff)
    with c1 show ?thesis by simp
  qed
  have us0: "0 \<le> ip * 1000000 + c" using ip0 c0 by simp
  have "timedelta_seconds x = microseconds_to_delta (ip * 1000000 + c)"
    using assms(1) by (simp add: timedelta_seconds_def py_int_def Let_def ip_def fp_def c_def)
  with microseconds_to_delta_nonneg [OF us0 us1] show ?thesis by simp
qed

lemma round_half_even_error: "abs (of_int (round_half_even t) - t) \<le> 1 / 2"
proof -
  have "of_int \<lfloor>t\<rfloor> \<le> t" "t < of_int \<lfloor>t\<rfloor> + 1" by linarith+
  then show ?thesis
    by (auto simp: round_half_even_def Let_def abs_le_iff)
qed

lemma round_half_even_unique:
  assumes "abs (y - of_int T) < 1 / 2"
  shows "round_half_even y = T"
proof -
  have e: "abs (of_int (round_half_even y) - y) \<le> 1 / 2" by (rule round_half_even_error)
  have "abs (of_int (round_half_even y) - (of_int T :: rat)) < 1"
    using assms e by linarith
  then have "abs (of_int (round_half_even y - T) :: rat) < of_int 1" by simp
  then have "abs (round_half_even y - T) < 1"
    by (simp only: of_int_abs [symmetric] of_int_less_iff)
  then show ?thesis by linarith
qed

lemma ilog2_less:
  assumes "0 < q" and "q < 2 powi k"
  shows "ilog2 q < k"
proof (rule ccontr)
  assume "\<not> ilog2 q < k"
  then have "k \<le> ilog2 q" by simp
  then have "(2::rat) powi k \<le> 2 powi (ilog2 q)" by (intro power_int_increasing) simp_all
  with ilog2_lower [OF assms(1)] assms(2) show False by linarith
qed

lemma rnd_error:
  assumes "0 < q"
  shows "abs (rnd q - q) \<le> 2 powi (ilog2 q - 53)"
proof -
  define e where "e = ilog2 q - 52"
  define t where "t = q / 2 powi e"
  have pe: "0 < (2::rat) powi e" by simp
  have q_eq: "q = t * 2 powi e" by (simp add: t_def)
  have r: "rnd q = of_int (round_half_even t) * 2 powi e"
    using assms by (simp add: rnd_pos_eq t_def e_def)
  have "rnd q - q = of_int (round_half_even t) * 2 powi e - t * 2 powi e"
    using r q_eq by simp
  then have "rnd q - q = (of_int (round_half_even t) - t) * 2 powi e"
    by (simp add: algebra_simps)
  then have "abs (rnd q - q) = abs (of_int (round_half_even t) - t) * 2 powi e"
    using pe by (simp add: abs_mult)
  also have "\<dots> \<le> 1 / 2 * 2 powi e"
    using round_half_even_error [of t] pe by (intro mult_right_mono) simp_all
  also have "1 / 2 * (2::rat) powi e = 2 powi (ilog2 q - 53)"
    by (simp add: e_def power_int_diff)
  finally show ?thesis .
qed

lemma scaled_error:
  fixes x q fp :: rat and T :: int
  assumes xq: "abs (x - q) \<le> 1 / 2097152"
    and eq: "1000000 * fp - of_int T = 1000000 * (x - q)"
  shows "abs (1000000 * fp - of_int T) \<le> 1000000 * (1 / 2097152)"
proof -
  have "abs (1000000 * (x - q)) = 1000000 * abs (x - q)"
    by (simp only: abs_mult abs_numeral)
  also have "\<dots> \<le> 1000000 * (1 / 2097152)"
    using xq by (rule mult_left_mono) simp
  finally show ?thesis unfolding eq .
qed

lemma near_integer:
  fixes r p :: rat and T :: int
  assumes "abs (r - p) \<le> 1 / 17179869184"
    and "abs (p - of_int T) \<le> 1000000 * (1 / 2097152)"
  shows "abs (r - of_int T) < 1 / 2"
proof -
  have "abs (r - of_int T) \<le> abs (r - p) + abs (p - of_int T)"
    using abs_triangle_ineq [of "r - p" "p - of_int T"] by simp
  also have "\<dots> \<le> 1 / 17179869184 + 1000000 * (1 / 2097152)"
    using assms by (rule add_mono)
  also have "\<dots> < 1 / 2" by simp
  finally show ?thesis .
qed

lemma tiny_int_zero:
  fixes T :: int
  assumes "abs (of_int T :: rat) \<le> 1000000 * (1 / 2097152)"
  shows "T = 0"
proof -
  have "(1000000::rat) * (1 / 2097152) < of_int 1" by simp
  with assms have "abs (of_int T :: rat) < of_int 1" by (rule le_less_trans)
  then have "abs T < 1" by (simp only: of_int_abs [symmetric] of_int_less_iff)
  then show ?thesis by simp
qed

lemma microseconds_to_delta_value:
  assumes "microseconds_to_delta us = Inr delta"
  shows "to_microseconds delta = us"
proof -
  define s where "s = us div 1000000"
  define d where "d = s div 86400"
  from assms have "delta = \<lparr>days = d, seconds = s mod 86400, microseconds = us mod 1000000\<rparr>"
    by (simp add: microseconds_to_delta_def Let_def s_def d_def split: if_splits)
  then have "to_microseconds delta = (d * 86400 + s mod 86400) * 1000000 + us mod 1000000"
    by (simp add: to_microseconds_def)
  moreover have "d * 86400 + s mod 86400 = s" unfolding d_def by simp
  moreover have "s * 1000000 + us mod 1000000 = us" unfolding s_def by simp
  ultimately show ?thesis by simp
qed

lemma rnd_error_below:
  assumes "0 < q" and "q < 2 powi k"
  shows "abs (rnd q - q) \<le> 2 powi (k - 54)"
proof -
  have "ilog2 q - 53 \<le> k - 54" using ilog2_less [OF assms] by simp
  then have "(2::rat) powi (ilog2 q - 53) \<le> 2 powi (k - 54)"
    by (intro power_int_increasing) simp_all
  with rnd_error [OF assms(1)] show ?thesis by linarith
qed

lemma seconds_round_trip_below:
  assumes "0 < n" and "n < 8589934592000000"
  shows "timedelta_seconds (rnd (of_int n / 1000000)) = microseconds_to_delta n"
proof -
  define q :: rat where "q = of_int n / 1000000"
  define x where "x = rnd q"
  define ip where "ip = \<lfloor>x\<rfloor>"
  define fp where "fp = x - of_int ip"
  define T where "T = n - ip * 1000000"
  have qpos: "0 < q" using assms(1) by (simp add: q_def)
  have "(of_int n :: rat) < of_int 8589934592000000" using assms(2) by (simp only: of_int_less_iff)
  then have "q < 2 powi 33" by (simp add: q_def)
  with qpos have "abs (x - q) \<le> 2 powi (33 - 54)" unfolding x_def by (rule rnd_error_below)
  then have xq: "abs (x - q) \<le> 1 / 2097152" by simp
  have xpos: "0 < x" unfolding x_def using qpos by (rule rnd_pos)
  have fp0: "0 \<le> fp" and fp1: "fp < 1" unfolding fp_def ip_def by linarith+
  have "1000000 * fp - of_int T = 1000000 * (x - q)"
    by (simp add: fp_def T_def q_def algebra_simps)
  with xq have key: "abs (1000000 * fp - of_int T) \<le> 1000000 * (1 / 2097152)"
    by (rule scaled_error)
  define c where "c = (if fp = 0 then 0 else round_half_even (rnd (1000000 * fp)))"
  have "c = T"
  proof (cases "fp = 0")
    case True
    with key have "abs (of_int T :: rat) \<le> 1000000 * (1 / 2097152)" by simp
    then have "T = 0" by (rule tiny_int_zero)
    with True show ?thesis by (simp add: c_def)
  next
    case False
    define p where "p = 1000000 * fp"
    have ppos: "0 < p" using False fp0 by (simp add: p_def)
    have "p < 2 powi 20" using fp1 by (simp add: p_def)
    with ppos have "abs (rnd p - p) \<le> 2 powi (20 - 54)" by (rule rnd_error_below)
    then have "abs (rnd p - p) \<le> 1 / 17179869184" by simp
    moreover have "abs (p - of_int T) \<le> 1000000 * (1 / 2097152)" using key by (simp only: p_def)
    ultimately have "abs (rnd p - of_int T) < 1 / 2" by (rule near_integer)
    then have "round_half_even (rnd p) = T" by (rule round_half_even_unique)
    with False show ?thesis by (simp add: c_def p_def)
  qed
  then have "ip * 1000000 + c = n" by (simp add: T_def)
  moreover have "timedelta_seconds x = microseconds_to_delta (ip * 1000000 + c)"
    using xpos by (simp add: timedelta_seconds_def py_int_def Let_def ip_def fp_def c_def)
  ultimately show ?thesis by (simp add: x_def q_def)
qed

lemma seconds_round_trip:
  assumes "0 < n" and "n \<le> 8589934592000000"
  shows "timedelta_seconds (rnd (of_int n / 1000000)) = microseconds_to_delta n"
proof (cases "n = 8589934592000000")
  case True
  have "timedelta_seconds (rnd (of_int 8589934592000000 / 1000000)) =
      microseconds_to_delta 8589934592000000" by code_simp
  with True show ?thesis by simp
next
  case False
  with assms(2) have "n < 8589934592000000" by simp
  with assms(1) show ?thesis by (rule seconds_round_trip_below)
qed

section \<open>Converting a timedelta through its float seconds\<close>

text \<open>
  C10. \<open>Delta.fromtimedelta(d)\<close> goes through the float \<open>d.total_seconds()\<close>, which cannot
  hold every microsecond count. At \<open>timedelta.max\<close> the float is \<open>86400000000000.0\<close>, one
  microsecond more than the largest duration, and the constructor raises OverflowError; at
  200000 days and one microsecond the float is \<open>17280000000.0\<close> and the microsecond is lost.
\<close>

theorem fromtimedelta_not_exact:
  "valid_timedelta \<lparr>days = 999999999, seconds = 86399, microseconds = 999999\<rparr>
   \<and> fromtimedelta \<lparr>days = 999999999, seconds = 86399, microseconds = 999999\<rparr> = Inl OverflowError
   \<and> valid_timedelta \<lparr>days = 200000, seconds = 0, microseconds = 1\<rparr>
   \<and> fromtimedelta \<lparr>days = 200000, seconds = 0, microseconds = 1\<rparr> =
       Inr \<lparr>days = 200000, seconds = 0, microseconds = 0\<rparr>"
  by code_simp

section \<open>Iterating a Delta\<close>

lemma total_seconds_neg_iff: "total_seconds d < 0 \<longleftrightarrow> to_microseconds d < 0"
proof -
  have "total_seconds d = rnd (of_int (to_microseconds d) / 1000000)"
    by (simp add: total_seconds_def int_truediv_def)
  then show ?thesis by (simp add: rnd_neg_iff divide_less_0_iff)
qed

lemma valid_nonneg_days:
  assumes "valid_timedelta d"
  shows "0 \<le> to_microseconds d \<longleftrightarrow> 0 \<le> days d"
proof -
  define t where "t = days d * 86400 + seconds d"
  have b: "0 \<le> seconds d" "seconds d < 86400" "0 \<le> microseconds d" "microseconds d < 1000000"
    using assms by (simp_all add: valid_timedelta_def)
  have n: "to_microseconds d = t * 1000000 + microseconds d"
    by (simp add: to_microseconds_def t_def)
  show ?thesis
  proof (cases "0 \<le> days d")
    case True
    then have "0 \<le> t" using b unfolding t_def by linarith
    then have "0 \<le> t * 1000000 + microseconds d" using b by linarith
    with True n show ?thesis by simp
  next
    case False
    then have "t \<le> - 1" using b unfolding t_def by linarith
    then have "t * 1000000 + microseconds d < 0" using b by linarith
    with False n show ?thesis by simp
  qed
qed

lemma neg_microseconds_bound:
  assumes "valid_timedelta d"
  shows "- to_microseconds d \<le> 86399999913600000000"
proof -
  define t where "t = days d * 86400 + seconds d"
  have b: "- 999999999 \<le> days d" "0 \<le> seconds d" "0 \<le> microseconds d"
    using assms by (simp_all add: valid_timedelta_def)
  have n: "to_microseconds d = t * 1000000 + microseconds d"
    by (simp add: to_microseconds_def t_def)
  have "- 86399999913600 \<le> t" using b unfolding t_def by linarith
  then have "- 86399999913600000000 \<le> t * 1000000 + microseconds d" using b by linarith
  with n show ?thesis by linarith
qed

lemma abs_total_seconds_bound:
  assumes "valid_timedelta d" and "to_microseconds d < 0"
  shows "0 \<le> abs (total_seconds d)" and "abs (total_seconds d) \<le> 86399999913600"
proof -
  define n where "n = - to_microseconds d"
  have npos: "0 < n" using assms(2) by (simp add: n_def)
  have nle: "n \<le> 86399999913600000000"
    unfolding n_def using assms(1) by (rule neg_microseconds_bound)
  have "total_seconds d = rnd (- (of_int n / 1000000))"
    by (simp add: total_seconds_def int_truediv_def n_def)
  then have eq: "abs (total_seconds d) = rnd (of_int n / 1000000)"
    using npos by (simp add: rnd_abs)
  have qpos: "(0::rat) < of_int n / 1000000" using npos by simp
  have "(of_int n :: rat) \<le> of_int 86399999913600000000" using nle by (simp only: of_int_le_iff)
  then have "(of_int n :: rat) / 1000000 \<le> of_int 86399999913600 * 2 powi 0" by simp
  with qpos have "rnd (of_int n / 1000000) \<le> of_int 86399999913600 * 2 powi 0"
    by (intro rnd_le_repr) simp_all
  with eq show "abs (total_seconds d) \<le> 86399999913600" by simp
  show "0 \<le> abs (total_seconds d)" by simp
qed

lemma components:
  assumes "valid_timedelta delta" and "0 \<le> days delta"
  shows "py_int (int_truediv (days delta) 7) = days delta div 7"
    and "py_int (int_truediv (seconds delta) 3600) = seconds delta div 3600"
    and "py_int (int_truediv (seconds delta) 60) = seconds delta div 60"
proof -
  have b: "days delta \<le> 999999999" "0 \<le> seconds delta" "seconds delta < 86400"
    using assms(1) by (simp_all add: valid_timedelta_def)
  show "py_int (int_truediv (days delta) 7) = days delta div 7"
    using assms(2) b by (intro py_int_truediv) simp_all
  show "py_int (int_truediv (seconds delta) 3600) = seconds delta div 3600"
    using b by (intro py_int_truediv) simp_all
  show "py_int (int_truediv (seconds delta) 60) = seconds delta div 60"
    using b by (intro py_int_truediv) simp_all
qed

lemma split_days: "(D::int) div 7 * 604800 + D mod 7 * 86400 = D * 86400"
  using div_mult_mod_eq [of D 7] by linarith

lemma split_seconds: "(S::int) div 3600 * 3600 + S div 60 mod 60 * 60 + S mod 60 = S"
proof -
  have "S div (60 * 60) = S div 60 div 60" by (rule zdiv_zmult2_eq) simp
  then have a: "S div 3600 = S div 60 div 60" by simp
  from div_mult_mod_eq [of "S div 60" 60] div_mult_mod_eq [of S 60] show ?thesis
    unfolding a by linarith
qed

lemma component_ranges:
  assumes "0 \<le> (D::int)" and "0 \<le> (S::int)" and "S < 86400"
  shows "0 \<le> D div 7" and "0 \<le> D mod 7" and "D mod 7 < 7"
    and "0 \<le> S div 3600" and "S div 3600 < 24"
    and "0 \<le> S div 60 mod 60" and "S div 60 mod 60 < 60"
    and "0 \<le> S mod 60" and "S mod 60 < 60"
proof -
  show "0 \<le> D div 7" using assms(1) by (simp add: pos_imp_zdiv_nonneg_iff)
  show "0 \<le> S div 3600" using assms(2) by (simp add: pos_imp_zdiv_nonneg_iff)
  show "S div 3600 < 24" using assms(3) by (simp add: div_less_iff_less_mult)
qed simp_all

lemma abs_total_seconds_eq:
  assumes "to_microseconds d < 0"
  shows "abs (total_seconds d) = rnd (of_int (- to_microseconds d) / 1000000)"
proof -
  have "total_seconds d = rnd (- (of_int (- to_microseconds d) / 1000000))"
    by (simp add: total_seconds_def int_truediv_def)
  then show ?thesis using assms by (simp add: rnd_abs)
qed

lemma component_sum:
  "((D::int) div 7 * 604800 + D mod 7 * 86400 + S div 3600 * 3600 + S div 60 mod 60 * 60
      + S mod 60) * 1000000 + U = (D * 86400 + S) * 1000000 + U"
proof -
  have e: "D div 7 * 604800 + D mod 7 * 86400 + S div 3600 * 3600 + S div 60 mod 60 * 60
      + S mod 60 = D * 86400 + S"
    using split_days [of D] split_seconds [of S] by simp
  show ?thesis unfolding e by simp
qed

lemma negated_component_sum:
  "((D::int) div 7 * - 1 * 604800 + D mod 7 * - 1 * 86400 + S div 3600 * - 1 * 3600
      + S div 60 mod 60 * - 1 * 60 + S mod 60 * - 1) * 1000000 + U * - 1
   = - ((D * 86400 + S) * 1000000 + U)"
  using component_sum [of D S U] by simp

text \<open>
  C9, as amended. Iterating a Delta \<open>d\<close> returns the six pairs weeks, days, hours, minutes,
  seconds, microseconds in this order; every component is non-negative when \<open>d\<close> is
  non-negative and non-positive otherwise; in absolute value days is below 7, hours below 24,
  minutes and seconds below 60 and microseconds below 1000000; and whenever \<open>d\<close> is not
  below minus \<open>2\<^sup>3\<^sup>3\<close> seconds (\<open>-8589934592\<close> seconds, about 272 years) the components add
  up to exactly the microseconds of \<open>d\<close>:
  \<open>(w*604800 + dy*86400 + h*3600 + mi*60 + s) * 1000000 + us\<close> is its microsecond count.
\<close>

theorem Delta_iter_components:
  assumes "valid_timedelta d"
  shows "\<exists>w dy h mi s us.
     Delta_iter d = Inr [(''weeks'', w), (''days'', dy), (''hours'', h), (''minutes'', mi),
                        (''seconds'', s), (''microseconds'', us)]
     \<and> (if 0 \<le> to_microseconds d
         then 0 \<le> w \<and> 0 \<le> dy \<and> 0 \<le> h \<and> 0 \<le> mi \<and> 0 \<le> s \<and> 0 \<le> us
         else w \<le> 0 \<and> dy \<le> 0 \<and> h \<le> 0 \<and> mi \<le> 0 \<and> s \<le> 0 \<and> us \<le> 0)
     \<and> abs dy < 7 \<and> abs h < 24 \<and> abs mi < 60 \<and> abs s < 60 \<and> abs us < 1000000
     \<and> (- 8589934592000000 \<le> to_microseconds d \<longrightarrow>
          (w * 604800 + dy * 86400 + h * 3600 + mi * 60 + s) * 1000000 + us = to_microseconds d)"
proof (cases "0 \<le> to_microseconds d")
  case True
  then have nn: "\<not> total_seconds d < 0" by (simp add: total_seconds_neg_iff)
  have d0: "0 \<le> days d" using True assms by (simp add: valid_nonneg_days)
  note c = components [OF assms d0]
  define D S U where "D = days d" and "S = seconds d" and "U = microseconds d"
  have b: "0 \<le> D" "0 \<le> S" "S < 86400" "0 \<le> U" "U < 1000000"
    using assms d0 by (simp_all add: valid_timedelta_def D_def S_def U_def)
  note r = component_ranges [OF b(1,2,3)]
  have it: "Delta_iter d = Inr [(''weeks'', D div 7), (''days'', D mod 7),
      (''hours'', S div 3600), (''minutes'', S div 60 mod 60),
      (''seconds'', S mod 60), (''microseconds'', U)]"
    using nn by (simp add: Delta_iter_def Let_def c D_def S_def U_def)
  have sm: "(D div 7 * 604800 + D mod 7 * 86400 + S div 3600 * 3600 + S div 60 mod 60 * 60
      + S mod 60) * 1000000 + U = to_microseconds d"
    unfolding component_sum by (simp add: to_microseconds_def D_def S_def U_def)
  have P: "Delta_iter d = Inr [(''weeks'', D div 7), (''days'', D mod 7),
      (''hours'', S div 3600), (''minutes'', S div 60 mod 60),
      (''seconds'', S mod 60), (''microseconds'', U)]
     \<and> (if 0 \<le> to_microseconds d
         then 0 \<le> D div 7 \<and> 0 \<le> D mod 7 \<and> 0 \<le> S div 3600 \<and> 0 \<le> S div 60 mod 60
              \<and> 0 \<le> S mod 60 \<and> 0 \<le> U
         else D div 7 \<le> 0 \<and> D mod 7 \<le> 0 \<and> S div 3600 \<le> 0 \<and> S div 60 mod 60 \<le> 0
              \<and> S mod 60 \<le> 0 \<and> U \<le> 0)
     \<and> abs (D mod 7) < 7 \<and> abs (S div 3600) < 24 \<and> abs (S div 60 mod 60) < 60
     \<and> abs (S mod 60) < 60 \<and> abs U < 1000000
     \<and> (- 8589934592000000 \<le> to_microseconds d \<longrightarrow>
          (D div 7 * 604800 + D mod 7 * 86400 + S div 3600 * 3600 + S div 60 mod 60 * 60
             + S mod 60) * 1000000 + U = to_microseconds d)"
    using True it r b(4,5) sm by (simp only: if_True abs_of_nonneg simp_thms)
  show ?thesis by (intro exI) (rule P)
next
  case False
  then have neg: "to_microseconds d < 0" by simp
  then have ts: "total_seconds d < 0" by (simp add: total_seconds_neg_iff)
  from timedelta_seconds_nonneg [OF abs_total_seconds_bound [OF assms neg]]
  obtain delta where td: "timedelta_seconds (abs (total_seconds d)) = Inr delta"
    and v: "valid_timedelta delta" and d0: "0 \<le> days delta" by blast
  note c = components [OF v d0]
  define D S U where "D = days delta" and "S = seconds delta" and "U = microseconds delta"
  have b: "0 \<le> D" "0 \<le> S" "S < 86400" "0 \<le> U" "U < 1000000"
    using v d0 by (simp_all add: valid_timedelta_def D_def S_def U_def)
  note r = component_ranges [OF b(1,2,3)]
  define W DY H MI SE US where "W = D div 7 * - 1" and "DY = D mod 7 * - 1"
    and "H = S div 3600 * - 1" and "MI = S div 60 mod 60 * - 1" and "SE = S mod 60 * - 1"
    and "US = U * - 1"
  have it: "Delta_iter d = Inr [(''weeks'', W), (''days'', DY), (''hours'', H),
      (''minutes'', MI), (''seconds'', SE), (''microseconds'', US)]"
    using ts td
    by (simp add: Delta_iter_def Let_def c D_def S_def U_def W_def DY_def H_def MI_def SE_def
        US_def)
  have signs: "W \<le> 0" "DY \<le> 0" "H \<le> 0" "MI \<le> 0" "SE \<le> 0" "US \<le> 0"
    using r b(4) by (simp_all add: W_def DY_def H_def MI_def SE_def US_def)
  have bounds: "abs DY < 7" "abs H < 24" "abs MI < 60" "abs SE < 60" "abs US < 1000000"
    using r b(4,5) by (simp_all add: DY_def H_def MI_def SE_def US_def)
  have sm: "(W * 604800 + DY * 86400 + H * 3600 + MI * 60 + SE) * 1000000 + US
          = to_microseconds d"
    if small: "- 8589934592000000 \<le> to_microseconds d"
  proof -
    have n0: "0 < - to_microseconds d" using neg by simp
    have n1: "- to_microseconds d \<le> 8589934592000000" using small by simp
    have "timedelta_seconds (abs (total_seconds d)) = microseconds_to_delta (- to_microseconds d)"
      unfolding abs_total_seconds_eq [OF neg] using n0 n1 by (rule seconds_round_trip)
    with td have "microseconds_to_delta (- to_microseconds d) = Inr delta" by simp
    then have "to_microseconds delta = - to_microseconds d" by (rule microseconds_to_delta_value)
    then have "- ((D * 86400 + S) * 1000000 + U) = to_microseconds d"
      by (simp add: to_microseconds_def D_def S_def U_def)
    then show ?thesis
      unfolding W_def DY_def H_def MI_def SE_def US_def negated_component_sum .
  qed
  from sm have sm': "- 8589934592000000 \<le> to_microseconds d \<longrightarrow>
      (W * 604800 + DY * 86400 + H * 3600 + MI * 60 + SE) * 1000000 + US = to_microseconds d"
    by blast
  have P: "Delta_iter d = Inr [(''weeks'', W), (''days'', DY), (''hours'', H),
      (''minutes'', MI), (''seconds'', SE), (''microseconds'', US)]
     \<and> (if 0 \<le> to_microseconds d
         then 0 \<le> W \<and> 0 \<le> DY \<and> 0 \<le> H \<and> 0 \<le> MI \<and> 0 \<le> SE \<and> 0 \<le> US
         else W \<le> 0 \<and> DY \<le> 0 \<and> H \<le> 0 \<and> MI \<le> 0 \<and> SE \<le> 0 \<and> US \<le> 0)
     \<and> abs DY < 7 \<and> abs H < 24 \<and> abs MI < 60 \<and> abs SE < 60 \<and> abs US < 1000000
     \<and> (- 8589934592000000 \<le> to_microseconds d \<longrightarrow>
          (W * 604800 + DY * 86400 + H * 3600 + MI * 60 + SE) * 1000000 + US
          = to_microseconds d)"
    using False it signs bounds sm' by (simp only: if_False simp_thms)
  show ?thesis by (intro exI) (rule P)
qed

theorem Delta_iter_components_witness:
  "valid_timedelta \<lparr>days = - 16, seconds = 1, microseconds = 3691\<rparr> \<and>
   - 8589934592000000 \<le> to_microseconds \<lparr>days = - 16, seconds = 1, microseconds = 3691\<rparr> \<and>
   (\<exists>w dy h mi s us.
     Delta_iter \<lparr>days = - 16, seconds = 1, microseconds = 3691\<rparr> =
       Inr [(''weeks'', w), (''days'', dy), (''hours'', h), (''minutes'', mi),
            (''seconds'', s), (''microseconds'', us)]
     \<and> (w, dy, h, mi, s, us) = (- 2, - 1, - 23, - 59, - 58, - 996309)
     \<and> (w * 604800 + dy * 86400 + h * 3600 + mi * 60 + s) * 1000000 + us =
         to_microseconds \<lparr>days = - 16, seconds = 1, microseconds = 3691\<rparr>)"
proof -
  let ?d = "\<lparr>days = - 16, seconds = 1, microseconds = 3691\<rparr>"
  have v: "valid_timedelta ?d" by (simp add: valid_timedelta_def)
  have n: "- 8589934592000000 \<le> to_microseconds ?d" by (simp add: to_microseconds_def)
  have e: "Delta_iter ?d = Inr [(''weeks'', - 2), (''days'', - 1), (''hours'', - 23),
            (''minutes'', - 59), (''seconds'', - 58), (''microseconds'', - 996309)]" by code_simp
  from Delta_iter_components [OF v] n e v show ?thesis by auto
qed

text \<open>
  C9, as stated, fails: the claimed sum is compared with the float \<open>d.total_seconds()\<close>. For
  one second and 3691 microseconds the components are \<open>(0, 0, 0, 0, 1, 3691)\<close>; their sum
  \<open>1 + 3691/1000000\<close> is not a double, so it differs from \<open>total_seconds()\<close> over the
  rationals, and evaluated in Python it is \<open>1.0036909999999999\<close>, one unit in the last place
  below \<open>total_seconds() = 1.003691\<close>.
\<close>

theorem Delta_iter_sum_counterexample:
  "Delta_iter \<lparr>days = 0, seconds = 1, microseconds = 3691\<rparr> =
     Inr [(''weeks'', 0), (''days'', 0), (''hours'', 0), (''minutes'', 0),
          (''seconds'', 1), (''microseconds'', 3691)]
   \<and> claimed_sum_exact 0 0 0 0 1 3691 \<noteq> total_seconds \<lparr>days = 0, seconds = 1, microseconds = 3691\<rparr>
   \<and> claimed_sum_float 0 0 0 0 1 3691 \<noteq> total_seconds \<lparr>days = 0, seconds = 1, microseconds = 3691\<rparr>"
  by code_simp

text \<open>
  For a negative \<open>d\<close> the components are those of \<open>Delta(seconds=abs(d.total_seconds()))\<close>,
  so below minus \<open>2\<^sup>3\<^sup>3\<close> seconds, where a double no longer holds every microsecond, they
  inherit the loss of \<open>fromtimedelta\<close>. One microsecond below the bound the components add
  up to one microsecond less than the duration, and at minus 200000 days plus two
  microseconds the microseconds component is \<open>-999996\<close> where the duration has \<open>-999998\<close>.
\<close>

lemma Delta_iter_below_bound:
  "valid_timedelta \<lparr>days = - 99421, seconds = 39807, microseconds = 999999\<rparr>
   \<and> to_microseconds \<lparr>days = - 99421, seconds = 39807, microseconds = 999999\<rparr>
       = - 8589934592000000 - 1
   \<and> Delta_iter \<lparr>days = - 99421, seconds = 39807, microseconds = 999999\<rparr> =
       Inr [(''weeks'', - 14202), (''days'', - 6), (''hours'', - 12), (''minutes'', - 56),
            (''seconds'', - 32), (''microseconds'', - 2)]
   \<and> (- 14202 * 604800 + - 6 * 86400 + - 12 * 3600 + - 56 * 60 + - 32) * 1000000 + - 2
       = to_microseconds \<lparr>days = - 99421, seconds = 39807, microseconds = 999999\<rparr> - 1"
  by code_simp

lemma Delta_iter_large_negative:
  "Delta_iter \<lparr>days = - 200000, seconds = 0, microseconds = 2\<rparr> =
     Inr [(''weeks'', - 28571), (''days'', - 2), (''hours'', - 23), (''minutes'', - 59),
          (''seconds'', - 59), (''microseconds'', - 999996)]
   \<and> (- 28571 * 604800 + - 2 * 86400 + - 23 * 3600 + - 59 * 60 + - 59) * 1000000 + - 999996
       = to_microseconds \<lparr>days = - 200000, seconds = 0, microseconds = 2\<rparr> + 2"
  by code_simp

section \<open>The accepted range of explicit offsets\<close>

lemma default_formats_disjoint: "pairwise_disjoint (map shapes default_formats)"
  by code_simp

lemma map_shape_digits: "list_all is_digit xs \<Longrightarrow> map shape xs = replicate (length xs) None"
  by (induction xs) (simp_all add: shape_def)

lemma shape_sign [simp]: "shape CHR ''+'' = Some CHR ''+''" "shape CHR ''-'' = Some CHR ''-''"
  "shape CHR '':'' = Some CHR '':''"
  by (simp_all add: shape_def is_digit_def)

lemma offset_text_shape:
  assumes "offset_text s = Some (off, r)"
  shows "\<exists>pre \<in> set offset_shapes. map shape s = pre @ map shape r"
proof -
  from assms obtain sg h1 h2 r0 where s: "s = sg # h1 # h2 # r0"
    and sg: "sg = CHR ''+'' \<or> sg = CHR ''-''" and h: "is_digit h1" "is_digit h2"
    by (auto simp: offset_text_def split: list.splits if_splits)
  define r1 where "r1 = (case r0 of c # t \<Rightarrow> if c = CHR '':'' then t else r0 | [] \<Rightarrow> r0)"
  from assms s sg h obtain m1 m2 where r1: "r1 = m1 # m2 # r" and m: "is_digit m1" "is_digit m2"
    by (auto simp: offset_text_def r1_def split: list.splits if_splits)
  have colon: "r0 = r1 \<or> r0 = CHR '':'' # r1"
    by (auto simp: r1_def split: list.splits)
  have d: "shape h1 = None" "shape h2 = None" "shape m1 = None" "shape m2 = None"
    using h m by (simp_all add: shape_def)
  from colon show ?thesis
  proof
    assume "r0 = r1"
    then have "map shape s = (shape sg # [None, None, None, None]) @ map shape r"
      by (simp add: s r1 d)
    moreover have "shape sg # [None, None, None, None] \<in> set offset_shapes"
      using sg by (auto simp: offset_shapes_def)
    ultimately show ?thesis by blast
  next
    assume "r0 = CHR '':'' # r1"
    then have "map shape s = (shape sg # [None, None, Some CHR '':'', None, None]) @ map shape r"
      by (simp add: s r1 d)
    moreover have "shape sg # [None, None, Some CHR '':'', None, None] \<in> set offset_shapes"
      using sg by (auto simp: offset_shapes_def)
    ultimately show ?thesis by blast
  qed
qed

lemma match_shape:
  "match_frags fmt s cap = Some res \<Longrightarrow> map shape s \<in> set (shapes fmt)"
proof (induction fmt arbitrary: s cap)
  case Nil
  then show ?case by (simp split: if_splits)
next
  case (Cons fr fs)
  show ?case
  proof (cases fr)
    case (Lit c)
    with Cons.prems obtain r where s: "s = c # r" and m: "match_frags fs r cap = Some res"
      by (auto split: list.splits if_splits)
    from Cons.IH [OF m] show ?thesis by (simp add: Lit s)
  next
    case (Digits f n)
    with Cons.prems have n: "n \<le> length s" and dg: "list_all is_digit (take n s)"
      and m: "match_frags fs (drop n s) (fst cap @ [(f, number (take n s))], snd cap) = Some res"
      by (auto split: if_splits)
    have "map shape s = map shape (take n s) @ map shape (drop n s)"
      by (simp flip: map_append)
    also have "map shape (take n s) = replicate n None"
      using map_shape_digits [OF dg] n by simp
    finally show ?thesis using Cons.IH [OF m] by (simp add: Digits)
  next
    case Offset
    with Cons.prems obtain off r where o: "offset_text s = Some (off, r)"
      and m: "match_frags fs r (fst cap, Some off) = Some res"
      by (auto split: option.splits)
    from offset_text_shape [OF o] obtain pre where
      pre: "pre \<in> set offset_shapes" and sh: "map shape s = pre @ map shape r" by blast
    from Cons.IH [OF m] pre sh show ?thesis by (auto simp: Offset)
  qed
qed

lemma attempt_no_match: "map shape s \<notin> set (shapes f) \<Longrightarrow> attempt f s = Inl ParseError"
  using match_shape [of f s "([], None)"]
  by (cases "full_match f s") (auto simp: attempt_def full_match_def)

lemma parse_formats_all_fail:
  "(\<And>f. f \<in> set fmts \<Longrightarrow> attempt f s = Inl ParseError) \<Longrightarrow> parse_formats fmts s = Inl ParseError"
  by (induction fmts) simp_all

lemma attempt_error: "attempt f s = Inl e \<Longrightarrow> e = ParseError"
  by (auto simp: attempt_def resolve_offset_def Let_def split: option.splits if_splits)

lemma parse_formats_unique:
  assumes "pairwise_disjoint (map shapes fmts)" and "fmt \<in> set fmts"
    and "full_match fmt s = Some res"
  shows "parse_formats fmts s = attempt fmt s"
  using assms(1,2)
proof (induction fmts)
  case Nil
  then show ?case by simp
next
  case (Cons f0 rest)
  have sh: "map shape s \<in> set (shapes fmt)"
    using assms(3) match_shape [of fmt s "([], None)" res] by (simp add: full_match_def)
  from Cons.prems(1) have pd: "pairwise_disjoint (map shapes rest)"
    and dj: "\<And>f a. f \<in> set rest \<Longrightarrow> a \<in> set (shapes f0) \<Longrightarrow> a \<notin> set (shapes f)"
    by (auto simp: list_all_iff)
  show ?case
  proof (cases "fmt = f0")
    case True
    show ?thesis
    proof (cases "attempt f0 s")
      case (Inr dt)
      with True show ?thesis by simp
    next
      case (Inl e)
      have "parse_formats rest s = Inl ParseError"
      proof (rule parse_formats_all_fail)
        fix f assume "f \<in> set rest"
        with dj sh True have "map shape s \<notin> set (shapes f)" by blast
        then show "attempt f s = Inl ParseError" by (rule attempt_no_match)
      qed
      with Inl True attempt_error [OF Inl] show ?thesis by simp
    qed
  next
    case False
    with Cons.prems(2) have mem: "fmt \<in> set rest" by simp
    with dj sh have "map shape s \<notin> set (shapes f0)" by blast
    then have "attempt f0 s = Inl ParseError" by (rule attempt_no_match)
    with Cons.IH [OF pd mem] show ?thesis by simp
  qed
qed

lemma attempt_offset:
  assumes "full_match fmt s = Some (caps, Some (sg, hh, mm))"
  shows "attempt fmt s =
     (if 24 * 60 \<le> hh * 60 + mm then Inl ParseError
      else case from_fields caps of
             None \<Rightarrow> Inl ParseError
           | Some naive \<Rightarrow> Inr (minus_minutes naive (signed_minutes sg hh mm)))"
  using assms
  by (simp add: attempt_def resolve_offset_def signed_minutes_def Let_def split: option.splits)

lemma parse_offset:
  assumes "fmt \<in> set default_formats" and "full_match fmt s = Some (caps, Some (sg, hh, mm))"
  shows "parse s =
     (if 24 * 60 \<le> hh * 60 + mm then Inl ParseError
      else case from_fields caps of
             None \<Rightarrow> Inl ParseError
           | Some naive \<Rightarrow> Inr (minus_minutes naive (signed_minutes sg hh mm)))"
  unfolding parse_def parse_formats_unique [OF default_formats_disjoint assms]
  using assms(2) by (rule attempt_offset)

lemma resolve_offset_accepts:
  "(\<exists>m. resolve_offset sg hh mm = Inr m) \<longleftrightarrow> hh * 60 + mm \<le> 23 * 60 + 59"
  by (auto simp: resolve_offset_def Let_def)

lemma resolve_offset_value:
  "resolve_offset sg hh mm = Inr (signed_minutes sg hh mm) \<longleftrightarrow> hh * 60 + mm \<le> 23 * 60 + 59"
  by (auto simp: resolve_offset_def signed_minutes_def Let_def split: sign.splits)

lemma resolve_offset_rejects:
  "resolve_offset sg hh mm = Inl ParseError \<longleftrightarrow> 24 * 60 \<le> hh * 60 + mm"
  by (auto simp: resolve_offset_def Let_def)

lemma digit_not_colon: "is_digit c \<Longrightarrow> c \<noteq> CHR '':''"
  by (auto simp: is_digit_def)

lemma offset_text_plain:
  assumes "c = CHR ''+'' \<or> c = CHR ''-''" "is_digit h1" "is_digit h2" "is_digit m1" "is_digit m2"
  shows "offset_text (c # h1 # h2 # m1 # m2 # r) =
     Some ((if c = CHR ''+'' then Plus else Minus, number [h1, h2], number [m1, m2]), r)"
  using assms digit_not_colon [of m1] by (auto simp: offset_text_def)

lemma offset_text_colon:
  assumes "c = CHR ''+'' \<or> c = CHR ''-''" "is_digit h1" "is_digit h2" "is_digit m1" "is_digit m2"
  shows "offset_text (c # h1 # h2 # CHR '':'' # m1 # m2 # r) =
     Some ((if c = CHR ''+'' then Plus else Minus, number [h1, h2], number [m1, m2]), r)"
  using assms by (auto simp: offset_text_def)

lemma match_frags_append:
  "Offset \<notin> set f1 \<Longrightarrow> match_frags f1 s1 cap = Some cap' \<Longrightarrow>
   match_frags (f1 @ f2) (s1 @ s2) cap = match_frags f2 s2 cap'"
proof (induction f1 arbitrary: s1 cap)
  case Nil
  then show ?case by (simp split: if_splits)
next
  case (Cons fr fs)
  show ?case
  proof (cases fr)
    case (Lit c)
    with Cons.prems obtain r where s: "s1 = c # r" and m: "match_frags fs r cap = Some cap'"
      by (auto split: list.splits if_splits)
    from Cons.prems(1) have "Offset \<notin> set fs" by simp
    from Cons.IH [OF this m] show ?thesis by (simp add: Lit s)
  next
    case (Digits f n)
    with Cons.prems have n: "n \<le> length s1" and dg: "list_all is_digit (take n s1)"
      and m: "match_frags fs (drop n s1) (fst cap @ [(f, number (take n s1))], snd cap) = Some cap'"
      by (auto split: if_splits)
    from Cons.prems(1) have "Offset \<notin> set fs" by simp
    from Cons.IH [OF this m] n dg show ?thesis by (simp add: Digits)
  next
    case Offset
    with Cons.prems(1) show ?thesis by simp
  qed
qed

lemma base_no_offset: "base \<in> set date_time_formats \<Longrightarrow> Offset \<notin> set base"
  by (auto simp: date_time_formats_def Let_def)

lemma base_with_offset: "base \<in> set date_time_formats \<Longrightarrow> base @ [Offset] \<in> set default_formats"
  by (simp add: default_formats_def)

lemma full_match_offset:
  assumes "base \<in> set date_time_formats" and "full_match base b = Some (caps, none)"
    and "offset_text t = Some (off, [])"
  shows "full_match (base @ [Offset]) (b @ t) = Some (caps, Some off)"
proof -
  from assms(2) have m: "match_frags base b ([], None) = Some (caps, none)"
    by (simp add: full_match_def)
  show ?thesis
    unfolding full_match_def match_frags_append [OF base_no_offset [OF assms(1)] m]
    using assms(3) by simp
qed

lemma hms_offset_candidate: "default_formats ! 14 \<in> set default_formats"
  by code_simp

lemma midnight_fields:
  "from_fields [(Year, 2000), (Month, 1), (Day, 1), (Hour, 0), (Minute, 0), (Second, 0)] =
     Some \<lparr>year = 2000, month = 1, day = 1, hour = 0, minute = 0, second = 0, microsecond = 0\<rparr>"
  by code_simp

lemma noon_fields:
  "from_fields [(Year, 2000), (Month, 1), (Day, 1), (Hour, 12), (Minute, 0), (Second, 0)] =
     Some \<lparr>year = 2000, month = 1, day = 1, hour = 12, minute = 0, second = 0, microsecond = 0\<rparr>"
  by code_simp

lemma noon_back:
  "minus_minutes \<lparr>year = 2000, month = 1, day = 1, hour = 12, minute = 0, second = 0,
      microsecond = 0\<rparr> (signed_minutes Plus 23 59) =
   \<lparr>year = 1999, month = 12, day = 31, hour = 12, minute = 1, second = 0, microsecond = 0\<rparr>"
  by code_simp

lemma noon_forward:
  "minus_minutes \<lparr>year = 2000, month = 1, day = 1, hour = 12, minute = 0, second = 0,
      microsecond = 0\<rparr> (signed_minutes Minus 23 59) =
   \<lparr>year = 2000, month = 1, day = 2, hour = 11, minute = 59, second = 0, microsecond = 0\<rparr>"
  by code_simp

lemma parse_accepted:
  assumes "full_match (default_formats ! 14) s = Some (caps, Some (sg, hh, mm))"
    and "from_fields caps = Some naive" and "hh * 60 + mm < 24 * 60"
  shows "parse s = Inr (minus_minutes naive (signed_minutes sg hh mm))"
  using parse_offset [OF hms_offset_candidate assms(1)] assms(2,3) by simp

lemma parse_rejected:
  assumes "full_match (default_formats ! 14) s = Some (caps, Some (sg, hh, mm))"
    and "24 * 60 \<le> hh * 60 + mm"
  shows "parse s = Inl ParseError"
  using parse_offset [OF hms_offset_candidate assms(1)] assms(2) by simp

text \<open>
  C3. The Offset Resolver accepts an explicit offset exactly when its magnitude is at most
  23 hours 59 minutes, in either sign, and fails with ParseError exactly from 24:00 on.
  For \<open>parse\<close> itself: whenever a default candidate matches the whole input with an explicit
  offset, no other candidate matches, so \<open>parse\<close> fails with ParseError if the offset is
  24:00 or larger, whatever its sign, and otherwise returns the wall-clock value minus the
  signed minutes (or fails when the captured fields form no date). In particular every
  input made of a text that a default candidate matches and a suffix \<open>\<plusminus>HHMM\<close> or
  \<open>\<plusminus>HH:MM\<close> is treated so, the two spellings alike. With the default candidates,
  \<open>-2359\<close> and \<open>+2359\<close> are accepted (rolling the date one day forward and back), and
  \<open>\<plusminus>2400\<close>, \<open>\<plusminus>2500\<close>, \<open>\<plusminus>24:00\<close> and \<open>\<plusminus>99:59\<close> make \<open>parse\<close> fail with ParseError.
\<close>

theorem offset_range:
  "((\<exists>m. resolve_offset sg hh mm = Inr m) \<longleftrightarrow> hh * 60 + mm \<le> 23 * 60 + 59)
   \<and> (resolve_offset sg hh mm = Inr (signed_minutes sg hh mm) \<longleftrightarrow> hh * 60 + mm \<le> 23 * 60 + 59)
   \<and> (resolve_offset sg hh mm = Inl ParseError \<longleftrightarrow> 24 * 60 \<le> hh * 60 + mm)
   \<and> (fmt \<in> set default_formats \<and> full_match fmt s = Some (caps, Some (sg, hh, mm)) \<longrightarrow>
        parse s =
          (if 24 * 60 \<le> hh * 60 + mm then Inl ParseError
           else case from_fields caps of
                  None \<Rightarrow> Inl ParseError
                | Some naive \<Rightarrow> Inr (minus_minutes naive (signed_minutes sg hh mm))))
   \<and> (base \<in> set date_time_formats \<and> full_match base b = Some (bcaps, None) \<and>
      (c = CHR ''+'' \<or> c = CHR ''-'') \<and> is_digit h1 \<and> is_digit h2 \<and> is_digit m1 \<and> is_digit m2 \<longrightarrow>
        parse (b @ [c, h1, h2, m1, m2]) = parse (b @ [c, h1, h2, CHR '':'', m1, m2])
        \<and> parse (b @ [c, h1, h2, m1, m2]) =
          (if 24 * 60 \<le> number [h1, h2] * 60 + number [m1, m2] then Inl ParseError
           else case from_fields bcaps of
                  None \<Rightarrow> Inl ParseError
                | Some naive \<Rightarrow>
                    Inr (minus_minutes naive
                          (signed_minutes (if c = CHR ''+'' then Plus else Minus)
                             (number [h1, h2]) (number [m1, m2])))))
   \<and> parse ''2000-01-01T12:00:00-2359'' =
        Inr \<lparr>year = 2000, month = 1, day = 2, hour = 11, minute = 59, second = 0, microsecond = 0\<rparr>
   \<and> parse ''2000-01-01T12:00:00+2359'' =
        Inr \<lparr>year = 1999, month = 12, day = 31, hour = 12, minute = 1, second = 0, microsecond = 0\<rparr>
   \<and> parse ''2000-01-01T12:00:00-23:59'' =
        Inr \<lparr>year = 2000, month = 1, day = 2, hour = 11, minute = 59, second = 0, microsecond = 0\<rparr>
   \<and> parse ''2000-01-01T12:00:00+23:59'' =
        Inr \<lparr>year = 1999, month = 12, day = 31, hour = 12, minute = 1, second = 0, microsecond = 0\<rparr>
   \<and> parse ''2000-01-01T00:00:00+2400'' = Inl ParseError
   \<and> parse ''2000-01-01T00:00:00-2400'' = Inl ParseError
   \<and> parse ''2000-01-01T00:00:00+2500'' = Inl ParseError
   \<and> parse ''2000-01-01T00:00:00-2500'' = Inl ParseError
   \<and> parse ''2000-01-01T00:00:00+24:00'' = Inl ParseError
   \<and> parse ''2000-01-01T00:00:00-24:00'' = Inl ParseError
   \<and> parse ''2000-01-01T00:00:00+99:59'' = Inl ParseError
   \<and> parse ''2000-01-01T00:00:00-99:59'' = Inl ParseError"
proof -
  have general: "fmt \<in> set default_formats \<and> full_match fmt s = Some (caps, Some (sg, hh, mm)) \<longrightarrow>
        parse s =
          (if 24 * 60 \<le> hh * 60 + mm then Inl ParseError
           else case from_fields caps of
                  None \<Rightarrow> Inl ParseError
                | Some naive \<Rightarrow> Inr (minus_minutes naive (signed_minutes sg hh mm)))"
    using parse_offset [of fmt s caps sg hh mm] by blast
  have strings: "base \<in> set date_time_formats \<and> full_match base b = Some (bcaps, None) \<and>
      (c = CHR ''+'' \<or> c = CHR ''-'') \<and> is_digit h1 \<and> is_digit h2 \<and> is_digit m1 \<and> is_digit m2 \<longrightarrow>
        parse (b @ [c, h1, h2, m1, m2]) = parse (b @ [c, h1, h2, CHR '':'', m1, m2])
        \<and> parse (b @ [c, h1, h2, m1, m2]) =
          (if 24 * 60 \<le> number [h1, h2] * 60 + number [m1, m2] then Inl ParseError
           else case from_fields bcaps of
                  None \<Rightarrow> Inl ParseError
                | Some naive \<Rightarrow>
                    Inr (minus_minutes naive
                          (signed_minutes (if c = CHR ''+'' then Plus else Minus)
                             (number [h1, h2]) (number [m1, m2]))))"
  proof (intro impI, elim conjE)
    assume base: "base \<in> set date_time_formats" and b: "full_match base b = Some (bcaps, None)"
      and c: "c = CHR ''+'' \<or> c = CHR ''-''"
      and d: "is_digit h1" "is_digit h2" "is_digit m1" "is_digit m2"
    let ?sg = "if c = CHR ''+'' then Plus else Minus"
    let ?R = "if 24 * 60 \<le> number [h1, h2] * 60 + number [m1, m2] then Inl ParseError
           else case from_fields bcaps of
                  None \<Rightarrow> Inl ParseError
                | Some naive \<Rightarrow>
                    Inr (minus_minutes naive (signed_minutes ?sg (number [h1, h2]) (number [m1, m2])))"
    have p: "parse (b @ [c, h1, h2, m1, m2]) = ?R"
      by (rule parse_offset [OF base_with_offset [OF base]
            full_match_offset [OF base b offset_text_plain [OF c d]]])
    have q: "parse (b @ [c, h1, h2, CHR '':'', m1, m2]) = ?R"
      by (rule parse_offset [OF base_with_offset [OF base]
            full_match_offset [OF base b offset_text_colon [OF c d]]])
    from p q show "parse (b @ [c, h1, h2, m1, m2]) = parse (b @ [c, h1, h2, CHR '':'', m1, m2])
        \<and> parse (b @ [c, h1, h2, m1, m2]) = ?R" by simp
  qed
  have e1: "parse ''2000-01-01T12:00:00-2359'' =
        Inr \<lparr>year = 2000, month = 1, day = 2, hour = 11, minute = 59, second = 0, microsecond = 0\<rparr>"
  proof -
    have "full_match (default_formats ! 14) ''2000-01-01T12:00:00-2359'' =
        Some ([(Year, 2000), (Month, 1), (Day, 1), (Hour, 12), (Minute, 0), (Second, 0)],
              Some (Minus, 23, 59))" by code_simp
    from parse_accepted [OF this noon_fields] show ?thesis by (simp add: noon_forward)
  qed
  have e2: "parse ''2000-01-01T12:00:00+2359'' =
        Inr \<lparr>year = 1999, month = 12, day = 31, hour = 12, minute = 1, second = 0, microsecond = 0\<rparr>"
  proof -
    have "full_match (default_formats ! 14) ''2000-01-01T12:00:00+2359'' =
        Some ([(Year, 2000), (Month, 1), (Day, 1), (Hour, 12), (Minute, 0), (Second, 0)],
              Some (Plus, 23, 59))" by code_simp
    from parse_accepted [OF this noon_fields] show ?thesis by (simp add: noon_back)
  qed
  have e3: "parse ''2000-01-01T12:00:00-23:59'' =
        Inr \<lparr>year = 2000, month = 1, day = 2, hour = 11, minute = 59, second = 0, microsecond = 0\<rparr>"
  proof -
    have "full_match (default_formats ! 14) ''2000-01-01T12:00:00-23:59'' =
        Some ([(Year, 2000), (Month, 1), (Day, 1), (Hour, 12), (Minute, 0), (Second, 0)],
              Some (Minus, 23, 59))" by code_simp
    from parse_accepted [OF this noon_fields] show ?thesis by (simp add: noon_forward)
  qed
  have e4: "parse ''2000-01-01T12:00:00+23:59'' =
        Inr \<lparr>year = 1999, month = 12, day = 31, hour = 12, minute = 1, second = 0, microsecond = 0\<rparr>"
  proof -
    have "full_match (default_formats ! 14) ''2000-01-01T12:00:00+23:59'' =
        Some ([(Year, 2000), (Month, 1), (Day, 1), (Hour, 12), (Minute, 0), (Second, 0)],
              Some (Plus, 23, 59))" by code_simp
    from parse_accepted [OF this noon_fields] show ?thesis by (simp add: noon_back)
  qed
  have f1: "parse ''2000-01-01T00:00:00+2400'' = Inl ParseError"
  proof -
    have "full_match (default_formats ! 14) ''2000-01-01T00:00:00+2400'' =
        Some ([(Year, 2000), (Month, 1), (Day, 1), (Hour, 0), (Minute, 0), (Second, 0)],
              Some (Plus, 24, 0))" by code_simp
    from parse_rejected [OF this] show ?thesis by simp
  qed
  have f2: "parse ''2000-01-01T00:00:00-2400'' = Inl ParseError"
  proof -
    have "full_match (default_formats ! 14) ''2000-01-01T00:00:00-2400'' =
        Some ([(Year, 2000), (Month, 1), (Day, 1), (Hour, 0), (Minute, 0), (Second, 0)],
              Some (Minus, 24, 0))" by code_simp
    from parse_rejected [OF this] show ?thesis by simp
  qed
  have f3: "parse ''2000-01-01T00:00:00+2500'' = Inl ParseError"
  proof -
    have "full_match (default_formats ! 14) ''2000-01-01T00:00:00+2500'' =
        Some ([(Year, 2000), (Month, 1), (Day, 1), (Hour, 0), (Minute, 0), (Second, 0)],
              Some (Plus, 25, 0))" by code_simp
    from parse_rejected [OF this] show ?thesis by simp
  qed
  have f4: "parse ''2000-01-01T00:00:00-2500'' = Inl ParseError"
  proof -
    have "full_match (default_formats ! 14) ''2000-01-01T00:00:00-2500'' =
        Some ([(Year, 2000), (Month, 1), (Day, 1), (Hour, 0), (Minute, 0), (Second, 0)],
              Some (Minus, 25, 0))" by code_simp
    from parse_rejected [OF this] show ?thesis by simp
  qed
  have f5: "parse ''2000-01-01T00:00:00+24:00'' = Inl ParseError"
  proof -
    have "full_match (default_formats ! 14) ''2000-01-01T00:00:00+24:00'' =
        Some ([(Year, 2000), (Month, 1), (Day, 1), (Hour, 0), (Minute, 0), (Second, 0)],
              Some (Plus, 24, 0))" by code_simp
    from parse_rejected [OF this] show ?thesis by simp
  qed
  have f6: "parse ''2000-01-01T00:00:00-24:00'' = Inl ParseError"
  proof -
    have "full_match (default_formats ! 14) ''2000-01-01T00:00:00-24:00'' =
        Some ([(Year, 2000), (Month, 1), (Day, 1), (Hour, 0), (Minute, 0), (Second, 0)],
              Some (Minus, 24, 0))" by code_simp
    from parse_rejected [OF this] show ?thesis by simp
  qed
  have f7: "parse ''2000-01-01T00:00:00+99:59'' = Inl ParseError"
  proof -
    have "full_match (default_formats ! 14) ''2000-01-01T00:00:00+99:59'' =
        Some ([(Year, 2000), (Month, 1), (Day, 1), (Hour, 0), (Minute, 0), (Second, 0)],
              Some (Plus, 99, 59))" by code_simp
    from parse_rejected [OF this] show ?thesis by simp
  qed
  have f8: "parse ''2000-01-01T00:00:00-99:59'' = Inl ParseError"
  proof -
    have "full_match (default_formats ! 14) ''2000-01-01T00:00:00-99:59'' =
        Some ([(Year, 2000), (Month, 1), (Day, 1), (Hour, 0), (Minute, 0), (Second, 0)],
              Some (Minus, 99, 59))" by code_simp
    from parse_rejected [OF this] show ?thesis by simp
  qed
  show ?thesis
    by (intro conjI resolve_offset_accepts resolve_offset_value resolve_offset_rejects general strings
        e1 e2 e3 e4 f1 f2 f3 f4 f5 f6 f7 f8)
qed

theorem offset_range_witness:
  "default_formats ! 14 \<in> set default_formats
   \<and> full_match (default_formats ! 14) ''2000-01-01T00:00:00-24:00'' =
       Some ([(Year, 2000), (Month, 1), (Day, 1), (Hour, 0), (Minute, 0), (Second, 0)],
             Some (Minus, 24, 0))
   \<and> date_time_formats ! 5 \<in> set date_time_formats
   \<and> full_match (date_time_formats ! 5) ''2000-01-01T00:00:00'' =
       Some ([(Year, 2000), (Month, 1), (Day, 1), (Hour, 0), (Minute, 0), (Second, 0)], None)
   \<and> is_digit CHR ''2'' \<and> is_digit CHR ''3'' \<and> is_digit CHR ''5'' \<and> is_digit CHR ''9''
   \<and> parse ''2000-01-01T00:00:00-24:00'' = Inl ParseError
   \<and> parse ''2000-01-01T00:00:00+2359'' = parse ''2000-01-01T00:00:00+23:59''
   \<and> parse ''2000-01-01T00:00:00+2359'' =
        Inr \<lparr>year = 1999, month = 12, day = 31, hour = 0, minute = 1, second = 0, microsecond = 0\<rparr>"
proof -
  note a = hms_offset_candidate
  have m: "full_match (default_formats ! 14) ''2000-01-01T00:00:00-24:00'' =
       Some ([(Year, 2000), (Month, 1), (Day, 1), (Hour, 0), (Minute, 0), (Second, 0)],
             Some (Minus, 24, 0))" by code_simp
  have b: "date_time_formats ! 5 \<in> set date_time_formats" by code_simp
  have n: "full_match (date_time_formats ! 5) ''2000-01-01T00:00:00'' =
       Some ([(Year, 2000), (Month, 1), (Day, 1), (Hour, 0), (Minute, 0), (Second, 0)], None)"
    by code_simp
  have d: "is_digit CHR ''2''" "is_digit CHR ''3''" "is_digit CHR ''5''" "is_digit CHR ''9''"
    by (simp_all add: is_digit_def)
  have h: "number ''23'' = 23" "number ''59'' = 59" by (simp_all add: number_def digit_val_def)
  note r = midnight_fields
  have k: "minus_minutes \<lparr>year = 2000, month = 1, day = 1, hour = 0, minute = 0, second = 0,
        microsecond = 0\<rparr> (signed_minutes Plus 23 59) =
      \<lparr>year = 1999, month = 12, day = 31, hour = 0, minute = 1, second = 0, microsecond = 0\<rparr>"
    by code_simp
  note t = offset_range [of Minus 24 0 "default_formats ! 14" "''2000-01-01T00:00:00-24:00''"
      "[(Year, 2000), (Month, 1), (Day, 1), (Hour, 0), (Minute, 0), (Second, 0)]"
      "date_time_formats ! 5" "''2000-01-01T00:00:00''"
      "[(Year, 2000), (Month, 1), (Day, 1), (Hour, 0), (Minute, 0), (Second, 0)]"
      "CHR ''+''" "CHR ''2''" "CHR ''3''" "CHR ''5''" "CHR ''9''"]
  from t a m have p: "parse ''2000-01-01T00:00:00-24:00'' = Inl ParseError" by simp
  from t b n d have qu:
    "parse (''2000-01-01T00:00:00'' @ [CHR ''+'', CHR ''2'', CHR ''3'', CHR ''5'', CHR ''9''])
       = parse (''2000-01-01T00:00:00'' @ [CHR ''+'', CHR ''2'', CHR ''3'', CHR '':'', CHR ''5'', CHR ''9''])
     \<and> parse (''2000-01-01T00:00:00'' @ [CHR ''+'', CHR ''2'', CHR ''3'', CHR ''5'', CHR ''9'']) =
          (if 24 * 60 \<le> number [CHR ''2'', CHR ''3''] * 60 + number [CHR ''5'', CHR ''9'']
           then Inl ParseError
           else case from_fields [(Year, 2000), (Month, 1), (Day, 1), (Hour, 0), (Minute, 0),
                                  (Second, 0)] of
                  None \<Rightarrow> Inl ParseError
                | Some naive \<Rightarrow>
                    Inr (minus_minutes naive
                          (signed_minutes (if CHR ''+'' = CHR ''+'' then Plus else Minus)
                             (number [CHR ''2'', CHR ''3'']) (number [CHR ''5'', CHR ''9'']))))"
    by blast
  from qu have q: "parse ''2000-01-01T00:00:00+2359'' = parse ''2000-01-01T00:00:00+23:59''"
    by simp
  from conjunct2 [OF qu] h r k have u: "parse ''2000-01-01T00:00:00+2359'' =
        Inr \<lparr>year = 1999, month = 12, day = 31, hour = 0, minute = 1, second = 0, microsecond = 0\<rparr>"
    by simp
  from a m b n d p q u show ?thesis by (intro conjI)
qed

end
